theory Spec2Isabelle
  imports Main "HOL-Library.Word"
begin

section \<open>JavaScript strings\<close>

text \<open>
  A JavaScript string is a sequence of 16-bit code units. The literals of the source are
  ASCII, so \<open>js\<close> lifts an Isabelle string literal to code units.
\<close>

type_synonym jschar = "16 word"
type_synonym jsstring = "jschar list"

definition js :: "string \<Rightarrow> jsstring" where
  "js s = map of_char s"

definition SPACE :: jschar where
  "SPACE = 0x20"

text \<open>
  The code units that \<^verbatim>\<open>String.prototype.trim\<close> strips: ECMAScript WhiteSpace
  (TAB, VT, FF, SP, NBSP, ZWNBSP and the Unicode space separators) and LineTerminator
  (LF, CR, LS, PS). All of them are single code units.
\<close>

definition isWhiteSpace :: "jschar \<Rightarrow> bool" where
  "isWhiteSpace c =
     (c = 0x9 \<or> c = 0xA \<or> c = 0xB \<or> c = 0xC \<or> c = 0xD \<or> c = 0x20 \<or> c = 0xA0 \<or>
      c = 0x1680 \<or> (0x2000 \<le> c \<and> c \<le> 0x200A) \<or> c = 0x2028 \<or> c = 0x2029 \<or>
      c = 0x202F \<or> c = 0x205F \<or> c = 0x3000 \<or> c = 0xFEFF)"

definition trim :: "jsstring \<Rightarrow> jsstring" where
  "trim s = rev (dropWhile isWhiteSpace (rev (dropWhile isWhiteSpace s)))"

text \<open>\<^verbatim>\<open>s.substring(n)\<close> for \<open>n \<ge> 0\<close>: the index is clamped to the length.\<close>

definition substring :: "jsstring \<Rightarrow> nat \<Rightarrow> jsstring" where
  "substring s n = drop n s"

definition startsWith :: "jsstring \<Rightarrow> jsstring \<Rightarrow> bool" where
  "startsWith s t = (take (length t) s = t)"

definition endsWith :: "jsstring \<Rightarrow> jsstring \<Rightarrow> bool" where
  "endsWith s t = (length t \<le> length s \<and> drop (length s - length t) s = t)"

text \<open>
  \<^verbatim>\<open>/[.?!]$/.test(s)\<close>: without the multiline flag \<^verbatim>\<open>$\<close> matches at the end of
  the input only, so the test holds when the last code unit is one of the three marks.
\<close>

definition sentence_mark :: "jschar \<Rightarrow> bool" where
  "sentence_mark c = (c = 0x2E \<or> c = 0x3F \<or> c = 0x21)"

definition endsWithPunctuation :: "jsstring \<Rightarrow> bool" where
  "endsWithPunctuation s = (s \<noteq> [] \<and> sentence_mark (last s))"

section \<open>The transcript accumulator\<close>

text \<open>
  The updater that \<^verbatim>\<open>onTranscription\<close> passes to \<^verbatim>\<open>setSourceText\<close>:
  \<^verbatim>\<open>
  const needsSpace =
    prevText.length > 0 && newTextChunk.length > 0 &&
    !prevText.endsWith(" ") && !newTextChunk.startsWith(" ") &&
    !/[.?!]$/.test(prevText.trim());
  return prevText + (needsSpace ? " " : "") + newTextChunk;
  \<close>
\<close>

definition needsSpace :: "jsstring \<Rightarrow> jsstring \<Rightarrow> bool" where
  "needsSpace prevText newTextChunk =
     (length prevText > 0 \<and> length newTextChunk > 0 \<and>
      \<not> endsWith prevText (js '' '') \<and> \<not> startsWith newTextChunk (js '' '') \<and>
      \<not> endsWithPunctuation (trim prevText))"

definition onTranscription :: "jsstring \<Rightarrow> jsstring \<Rightarrow> jsstring" where
  "onTranscription prevText newTextChunk =
     prevText @ (if needsSpace prevText newTextChunk then js '' '' else js '''') @ newTextChunk"

text \<open>The source buffer after a sequence of final fragments, from the empty buffer.\<close>

definition accumulate :: "jsstring list \<Rightarrow> jsstring" where
  "accumulate fs = foldl onTranscription [] fs"

text \<open>
  The spacing rule in the specification's words, for comparison with the code: a single
  space unless the buffer is empty, the fragment is empty, the buffer ends with
  whitespace, the fragment begins with whitespace, or the trimmed buffer ends with a
  sentence mark.
\<close>

definition spec_spacing_rule :: "jsstring \<Rightarrow> jsstring \<Rightarrow> jsstring" where
  "spec_spacing_rule b f =
     (if b = [] \<or> f = [] \<or> isWhiteSpace (last b) \<or> isWhiteSpace (hd f) \<or>
         endsWithPunctuation (trim b)
      then b @ f else b @ [SPACE] @ f)"

fun has_double_space :: "jsstring \<Rightarrow> bool" where
  "has_double_space (a # b # r) = ((a = SPACE \<and> b = SPACE) \<or> has_double_space (b # r))"
| "has_double_space [a] = False"
| "has_double_space [] = False"

section \<open>Configuration and state\<close>

text \<open>
  The two provider keys the hooks read from \<^verbatim>\<open>localStorage\<close> at each call;
  \<^verbatim>\<open>getItem\<close> gives \<^verbatim>\<open>null\<close> or a string, and \<^verbatim>\<open>!key\<close> holds for
  \<^verbatim>\<open>null\<close> and for the empty string.
\<close>

record env =
  elevenlabs_api_key :: "jsstring option"
  azure_api_key :: "jsstring option"

definition falsy :: "jsstring option \<Rightarrow> bool" where
  "falsy k = (k = None \<or> k = Some [])"

text \<open>
  What the callback passed to \<^verbatim>\<open>setTimeout\<close> closes over: the values of the render
  in which the effect ran. The ref \<^verbatim>\<open>lastSpokenTranslatedTextRef\<close> is read through
  the state when the callback runs.
\<close>

record timer_closure =
  tc_isSpeaking :: bool
  tc_translatedText :: jsstring
  tc_newTranslatedPortion :: jsstring
  tc_targetLanguage :: jsstring

text \<open>
  What \<^verbatim>\<open>handleRecordingToggle\<close> closes over: the values of the render that created
  the callback, which is the render of the click. The handler keeps them across its
  \<^verbatim>\<open>await\<close>; the refs it reads through the state.
\<close>

record toggle_closure =
  hc_isRecording :: bool
  hc_translatedText :: jsstring
  hc_isSpeaking :: bool
  hc_targetLanguage :: jsstring

text \<open>
  The state of the page component and of its hooks \<^verbatim>\<open>useTranslation\<close> and
  \<^verbatim>\<open>useTextToSpeech\<close>, the browser's table of pending timeouts, the calls of
  \<^verbatim>\<open>handleRecordingToggle\<close> that are suspended at their \<^verbatim>\<open>await\<close>
  (\<open>suspendedToggles\<close>, each with its closure), and a log of what went to the network.
  The log fields are \<open>ttsStarted\<close> (calls of \<^verbatim>\<open>speak\<close> that set the flag),
  \<open>ttsRequests\<close> (requests posted to the synthesis provider), \<open>ttsActive\<close>
  (synthesis and playback operations in flight), \<open>translateRequests\<close> (requests posted
  to the translation provider, in the order of issue) and \<open>translateSettled\<close> (the
  indices of those that have settled).
\<close>

record app_state =
  sourceText :: jsstring
  translatedText :: jsstring
  isRecording :: bool
  sourceLanguage :: jsstring
  targetLanguage :: jsstring
  lastSpokenTranslatedTextRef :: jsstring
  ttsDebounceTimerRef :: "nat option"
  pendingTimeouts :: "(nat \<times> timer_closure) list"
  nextTimerId :: nat
  suspendedToggles :: "toggle_closure list"
  isSpeaking :: bool
  ttsError :: "jsstring option"
  isTranslating :: bool
  translationError :: "jsstring option"
  ttsStarted :: "(jsstring \<times> jsstring) list"
  ttsRequests :: "(jsstring \<times> jsstring) list"
  ttsActive :: nat
  translateRequests :: "(jsstring \<times> jsstring option \<times> jsstring) list"
  translateSettled :: "nat list"

text \<open>The state after mount; timeout identifiers are positive.\<close>

definition init_state :: app_state where
  "init_state =
     \<lparr>sourceText = js [], translatedText = js [], isRecording = False,
      sourceLanguage = js ''Auto-Detect'', targetLanguage = js ''es'',
      lastSpokenTranslatedTextRef = js [], ttsDebounceTimerRef = None,
      pendingTimeouts = [], nextTimerId = 1, suspendedToggles = [],
      isSpeaking = False, ttsError = None, isTranslating = False, translationError = None,
      ttsStarted = [], ttsRequests = [], ttsActive = 0,
      translateRequests = [], translateSettled = []\<rparr>"

text \<open>The spoken watermark is the length of the text the ref holds.\<close>

definition watermark :: "app_state \<Rightarrow> nat" where
  "watermark st = length (lastSpokenTranslatedTextRef st)"

section \<open>Speech synthesis: useTextToSpeech\<close>

text \<open>
  \<^verbatim>\<open>speak\<close> up to its first suspension. A blank text returns at once. Otherwise the
  flag is set and the error cleared; a missing key sets the error and returns from inside
  the \<^verbatim>\<open>try\<close> block, which has no \<^verbatim>\<open>finally\<close>; with a key the request is posted.
  The voice table is left out: the request is logged with the language it was made for.
\<close>

definition speak :: "env \<Rightarrow> jsstring \<Rightarrow> jsstring \<Rightarrow> app_state \<Rightarrow> app_state" where
  "speak e text language st =
     (if trim text = [] then st
      else
        let st1 = st\<lparr>isSpeaking := True, ttsError := None,
                     ttsStarted := ttsStarted st @ [(text, language)]\<rparr>
        in if falsy (elevenlabs_api_key e)
           then st1\<lparr>ttsError := Some (js ''ElevenLabs API key not configured'')\<rparr>
           else st1\<lparr>ttsRequests := ttsRequests st1 @ [(text, language)],
                    ttsActive := Suc (ttsActive st1)\<rparr>)"

text \<open>
  How a posted request ends. A rejected \<^verbatim>\<open>fetch\<close> (with the message of the error it
  threw, if it threw an \<^verbatim>\<open>Error\<close>) and a response that is not ok reach the
  \<^verbatim>\<open>catch\<close> block. After a good response the audio element ends, reports an error, or
  \<^verbatim>\<open>play()\<close> rejects, which only rejects the returned promise.
\<close>

datatype speak_outcome =
    FetchFailed "jsstring option"
  | ResponseNotOk jsstring
  | PlaybackEnded
  | PlaybackError
  | PlayRejected

fun speak_settle :: "speak_outcome \<Rightarrow> app_state \<Rightarrow> app_state" where
  "speak_settle (FetchFailed m) st =
     st\<lparr>ttsError := Some (case m of Some msg \<Rightarrow> msg | None \<Rightarrow> js ''Text-to-speech failed''),
        isSpeaking := False, ttsActive := ttsActive st - 1\<rparr>"
| "speak_settle (ResponseNotOk statusText) st =
     st\<lparr>ttsError := Some (js ''Text-to-speech failed: '' @ statusText),
        isSpeaking := False, ttsActive := ttsActive st - 1\<rparr>"
| "speak_settle PlaybackEnded st = st\<lparr>isSpeaking := False, ttsActive := ttsActive st - 1\<rparr>"
| "speak_settle PlaybackError st = st\<lparr>isSpeaking := False, ttsActive := ttsActive st - 1\<rparr>"
| "speak_settle PlayRejected st = st\<lparr>ttsActive := ttsActive st - 1\<rparr>"

section \<open>Translation: useTranslation and the auto-translate effect\<close>

datatype 'a promise = Resolved 'a | Awaiting

text \<open>
  \<^verbatim>\<open>translateText\<close> up to its first suspension. The \<^verbatim>\<open>from\<close> parameter is
  omitted for \<^verbatim>\<open>"Auto-Detect"\<close>. The \<^verbatim>\<open>finally\<close> block clears the translating
  flag on the missing-key return.
\<close>

definition translateText_begin ::
  "env \<Rightarrow> jsstring \<Rightarrow> jsstring \<Rightarrow> jsstring \<Rightarrow> app_state \<Rightarrow> jsstring option promise \<times> app_state" where
  "translateText_begin e text srcLang tgtLang st =
     (if trim text = [] then (Resolved None, st)
      else
        let st1 = st\<lparr>isTranslating := True, translationError := None\<rparr>
        in if falsy (azure_api_key e)
           then (Resolved None,
                 st1\<lparr>translationError := Some (js ''Azure API key not configured''),
                     isTranslating := False\<rparr>)
           else (Awaiting,
                 st1\<lparr>translateRequests := translateRequests st1 @
                       [(text, if srcLang = js ''Auto-Detect'' then None else Some srcLang, tgtLang)]\<rparr>))"

text \<open>
  How a posted translation request ends: \<^verbatim>\<open>fetch\<close> rejects, the response is not ok,
  the payload has not the expected shape, or it carries a translation.
\<close>

datatype http_result =
    NetworkFailure "jsstring option"
  | NotOk jsstring
  | BadFormat
  | Translated jsstring

fun translateText_settle :: "http_result \<Rightarrow> app_state \<Rightarrow> jsstring option \<times> app_state" where
  "translateText_settle (NetworkFailure m) st =
     (None, st\<lparr>translationError := Some (case m of Some msg \<Rightarrow> msg | None \<Rightarrow> js ''Translation failed''),
               isTranslating := False\<rparr>)"
| "translateText_settle (NotOk statusText) st =
     (None, st\<lparr>translationError := Some (js ''Translation failed: '' @ statusText),
               isTranslating := False\<rparr>)"
| "translateText_settle BadFormat st =
     (None, st\<lparr>translationError := Some (js ''Invalid translation response format''),
               isTranslating := False\<rparr>)"
| "translateText_settle (Translated t) st = (Some t, st\<lparr>isTranslating := False\<rparr>)"

text \<open>\<^verbatim>\<open>if (translated) setTranslatedText(translated)\<close> in \<^verbatim>\<open>translateAsync\<close>.\<close>

fun translateAsync_continue :: "jsstring option \<Rightarrow> app_state \<Rightarrow> app_state" where
  "translateAsync_continue None st = st"
| "translateAsync_continue (Some t) st = (if t \<noteq> [] then st\<lparr>translatedText := t\<rparr> else st)"

definition auto_translate_effect :: "env \<Rightarrow> app_state \<Rightarrow> app_state" where
  "auto_translate_effect e st =
     (if sourceText st \<noteq> [] \<and> length (trim (sourceText st)) > 0
      then (case translateText_begin e (sourceText st) (sourceLanguage st) (targetLanguage st) st of
              (Resolved r, st1) \<Rightarrow> translateAsync_continue r st1
            | (Awaiting, st1) \<Rightarrow> st1)
      else st\<lparr>translatedText := js []\<rparr>)"

section \<open>The speech coordinator: the playback effect, its timer and the toggle\<close>

text \<open>
  \<^verbatim>\<open>if (ttsDebounceTimerRef.current) clearTimeout(ttsDebounceTimerRef.current)\<close>:
  the timeout whose identifier the ref holds is removed from the pending ones; the ref
  keeps the identifier.
\<close>

definition clear_debounce :: "app_state \<Rightarrow> app_state" where
  "clear_debounce st =
     (case ttsDebounceTimerRef st of
        None \<Rightarrow> st
      | Some i \<Rightarrow>
          if i = 0 then st
          else st\<lparr>pendingTimeouts := filter (\<lambda>p. fst p \<noteq> i) (pendingTimeouts st)\<rparr>)"

definition set_debounce :: "timer_closure \<Rightarrow> app_state \<Rightarrow> app_state" where
  "set_debounce c st =
     st\<lparr>pendingTimeouts := pendingTimeouts st @ [(nextTimerId st, c)],
        ttsDebounceTimerRef := Some (nextTimerId st),
        nextTimerId := Suc (nextTimerId st)\<rparr>"

text \<open>The body of the playback effect, on the values of the committed render.\<close>

definition tts_effect :: "env \<Rightarrow> app_state \<Rightarrow> app_state" where
  "tts_effect e st0 =
     (let st = clear_debounce st0 in
      if trim (translatedText st) = [] \<or> isSpeaking st then st
      else
        let newTranslatedPortion =
              trim (substring (translatedText st) (length (lastSpokenTranslatedTextRef st)))
        in if newTranslatedPortion = [] then st
           else if endsWithPunctuation newTranslatedPortion
           then (speak e newTranslatedPortion (targetLanguage st) st)
                  \<lparr>lastSpokenTranslatedTextRef := translatedText st\<rparr>
           else if isRecording st
           then set_debounce
                  \<lparr>tc_isSpeaking = isSpeaking st, tc_translatedText = translatedText st,
                   tc_newTranslatedPortion = newTranslatedPortion,
                   tc_targetLanguage = targetLanguage st\<rparr> st
           else (speak e newTranslatedPortion (targetLanguage st) st)
                  \<lparr>lastSpokenTranslatedTextRef := translatedText st\<rparr>)"

text \<open>The callback of the 700 ms timeout.\<close>

definition debounce_callback :: "env \<Rightarrow> timer_closure \<Rightarrow> app_state \<Rightarrow> app_state" where
  "debounce_callback e c st =
     (if \<not> tc_isSpeaking c \<and>
         trim (substring (tc_translatedText c) (length (lastSpokenTranslatedTextRef st))) =
           tc_newTranslatedPortion c
      then (speak e (tc_newTranslatedPortion c) (tc_targetLanguage c) st)
             \<lparr>lastSpokenTranslatedTextRef := tc_translatedText c\<rparr>
      else st)"

text \<open>
  \<^verbatim>\<open>handleRecordingToggle\<close> in two parts, split at its \<^verbatim>\<open>await\<close>. Up to the
  \<^verbatim>\<open>await\<close>: when the closure says the recording is on, nothing of the state
  changes before \<^verbatim>\<open>await stopRecording()\<close>; otherwise both buffers and the ref are
  reset and the timer is cleared before \<^verbatim>\<open>await startRecording()\<close>. The call is
  then suspended with its closure: \<^verbatim>\<open>stopRecording\<close> awaits the closing of the
  audio context, if there is one, while the socket is still open, and
  \<^verbatim>\<open>startRecording\<close> awaits the microphone and the request for a session, so
  other events may be handled before the handler goes on. The audio and socket resources that \<^verbatim>\<open>stopRecording\<close> and
  \<^verbatim>\<open>startRecording\<close> handle are not part of the state.
\<close>

definition handleRecordingToggle_begin :: "toggle_closure \<Rightarrow> app_state \<Rightarrow> app_state" where
  "handleRecordingToggle_begin c st =
     (let st1 = (if hc_isRecording c then st
                 else clear_debounce
                        (st\<lparr>sourceText := js [], translatedText := js [],
                            lastSpokenTranslatedTextRef := js []\<rparr>))
      in st1\<lparr>suspendedToggles := suspendedToggles st1 @ [c]\<rparr>)"

text \<open>
  After the \<^verbatim>\<open>await\<close>, on the state of that moment: \<open>translatedText\<close>,
  \<open>isSpeaking\<close> and \<open>targetLanguage\<close> are those of the closure, the two refs are
  read from the state. \<open>startOk\<close> is what \<^verbatim>\<open>startRecording\<close> resolved to.
\<close>

definition handleRecordingToggle_resume ::
  "env \<Rightarrow> bool \<Rightarrow> toggle_closure \<Rightarrow> app_state \<Rightarrow> app_state" where
  "handleRecordingToggle_resume e startOk c st =
     (if hc_isRecording c then
        let st1 = clear_debounce (st\<lparr>isRecording := False\<rparr>);
            remainingText =
              trim (substring (hc_translatedText c) (length (lastSpokenTranslatedTextRef st1)))
        in if remainingText \<noteq> [] \<and> \<not> hc_isSpeaking c
           then (speak e remainingText (hc_targetLanguage c) st1)
                  \<lparr>lastSpokenTranslatedTextRef := hc_translatedText c\<rparr>
           else st1
      else if startOk then st\<lparr>isRecording := True\<rparr> else st)"

text \<open>The closure of the handler that the last render created.\<close>

definition capture :: "app_state \<Rightarrow> toggle_closure" where
  "capture st =
     \<lparr>hc_isRecording = isRecording st, hc_translatedText = translatedText st,
      hc_isSpeaking = isSpeaking st, hc_targetLanguage = targetLanguage st\<rparr>"

section \<open>Events and steps\<close>

text \<open>
  One step is one event handled up to its next suspension, followed by the renders it
  causes. The events are a final transcript from the socket, the settling of the
  translation request with a given index, the firing of the timeout with a given
  identifier, the settling of a synthesis operation, a click on the recording button
  (the handler runs up to its \<^verbatim>\<open>await\<close>), the resumption of a suspended call of the
  handler (the one at the given position, with what \<^verbatim>\<open>startRecording\<close> resolved to),
  and the choice of a source or target language. Any event may come between a click and
  the resumption of its handler. Each step is atomic: the commits and their effects are
  over before the next event is handled.
\<close>

datatype event =
    FinalTranscript jsstring
  | TranslationSettles nat http_result
  | TimeoutFires nat
  | SpeakSettles speak_outcome
  | ToggleClick
  | ToggleResumes nat bool
  | SetSourceLanguage jsstring
  | SetTargetLanguage jsstring

fun handle :: "env \<Rightarrow> event \<Rightarrow> app_state \<Rightarrow> app_state" where
  "handle e (FinalTranscript text) st =
     (if text = [] then st
      else st\<lparr>sourceText := onTranscription (sourceText st) text\<rparr>)"
| "handle e (TranslationSettles i r) st =
     (if i < length (translateRequests st) \<and> i \<notin> set (translateSettled st)
      then (case translateText_settle r (st\<lparr>translateSettled := i # translateSettled st\<rparr>) of
              (res, st1) \<Rightarrow> translateAsync_continue res st1)
      else st)"
| "handle e (TimeoutFires i) st =
     (case map_of (pendingTimeouts st) i of
        None \<Rightarrow> st
      | Some c \<Rightarrow>
          debounce_callback e c
            (st\<lparr>pendingTimeouts := filter (\<lambda>p. fst p \<noteq> i) (pendingTimeouts st)\<rparr>))"
| "handle e (SpeakSettles out) st = (if ttsActive st = 0 then st else speak_settle out st)"
| "handle e ToggleClick st = handleRecordingToggle_begin (capture st) st"
| "handle e (ToggleResumes n startOk) st =
     (if n < length (suspendedToggles st)
      then handleRecordingToggle_resume e startOk (suspendedToggles st ! n)
             (st\<lparr>suspendedToggles :=
                   take n (suspendedToggles st) @ drop (Suc n) (suspendedToggles st)\<rparr>)
      else st)"
| "handle e (SetSourceLanguage l) st = st\<lparr>sourceLanguage := l\<rparr>"
| "handle e (SetTargetLanguage l) st = st\<lparr>targetLanguage := l\<rparr>"

text \<open>The dependency lists of the two effects (the callbacks in them never change).\<close>

definition translate_deps :: "app_state \<Rightarrow> jsstring \<times> jsstring \<times> jsstring" where
  "translate_deps st = (sourceText st, sourceLanguage st, targetLanguage st)"

definition tts_deps :: "app_state \<Rightarrow> jsstring \<times> bool \<times> bool \<times> jsstring" where
  "tts_deps st = (translatedText st, isSpeaking st, isRecording st, targetLanguage st)"

text \<open>
  The effects of one render: an effect runs when one of its dependencies differs from
  the render before, and it reads the values of its own render. The auto-translate
  effect may replace \<open>translatedText\<close>, which the playback effect sees in the next
  render only; so the playback effect is applied first here. Apart from that neither
  effect writes what the other reads.
\<close>

definition render_effects :: "env \<Rightarrow> app_state \<Rightarrow> app_state \<Rightarrow> app_state" where
  "render_effects e prev cur =
     (let s1 = (if tts_deps cur = tts_deps prev then cur else tts_effect e cur)
      in if translate_deps cur = translate_deps prev then s1
         else auto_translate_effect e s1)"

text \<open>
  The render after the handler and the render after its effects. A third render has no
  effect to run (\<open>rerender_stable\<close> below).
\<close>

definition rerender :: "env \<Rightarrow> app_state \<Rightarrow> app_state \<Rightarrow> app_state" where
  "rerender e old new = render_effects e new (render_effects e old new)"

definition step :: "env \<Rightarrow> event \<Rightarrow> app_state \<Rightarrow> app_state" where
  "step e ev st = rerender e st (handle e ev st)"

text \<open>A run: each event comes with the configuration in force when it is handled.\<close>

definition run :: "(env \<times> event) list \<Rightarrow> app_state \<Rightarrow> app_state" where
  "run tr st = foldl (\<lambda>s p. step (fst p) (snd p) s) st tr"

text \<open>
  A click on the button while the recording is off: the handler takes the start branch
  and resets the buffers and the watermark before it awaits \<^verbatim>\<open>startRecording\<close>,
  whether or not the start then succeeds.
\<close>

fun start_click :: "event \<Rightarrow> app_state \<Rightarrow> bool" where
  "start_click ToggleClick st = (\<not> isRecording st)"
| "start_click (ToggleResumes n startOk) st = False"
| "start_click (FinalTranscript text) st = False"
| "start_click (TranslationSettles i r) st = False"
| "start_click (TimeoutFires i) st = False"
| "start_click (SpeakSettles out) st = False"
| "start_click (SetSourceLanguage l) st = False"
| "start_click (SetTargetLanguage l) st = False"

text \<open>
  The resumption of a stop handler whose closure holds a cleared flag while the flag in
  the state is set: an utterance was started between the click and the resumption. A run
  has \<open>fresh_stops\<close> when none of its steps is one.
\<close>

fun stale_stop :: "event \<Rightarrow> app_state \<Rightarrow> bool" where
  "stale_stop (ToggleResumes n startOk) st =
     (n < length (suspendedToggles st) \<and> hc_isRecording (suspendedToggles st ! n) \<and>
      \<not> hc_isSpeaking (suspendedToggles st ! n) \<and> isSpeaking st)"
| "stale_stop ToggleClick st = False"
| "stale_stop (FinalTranscript text) st = False"
| "stale_stop (TranslationSettles i r) st = False"
| "stale_stop (TimeoutFires i) st = False"
| "stale_stop (SpeakSettles out) st = False"
| "stale_stop (SetSourceLanguage l) st = False"
| "stale_stop (SetTargetLanguage l) st = False"

fun fresh_stops :: "(env \<times> event) list \<Rightarrow> app_state \<Rightarrow> bool" where
  "fresh_stops [] st = True"
| "fresh_stops (p # tr) st = (\<not> stale_stop (snd p) st \<and> fresh_stops tr (step (fst p) (snd p) st))"

section \<open>Invariants of the reachable states\<close>

text \<open>
  Every pending timeout is the one whose identifier the ref holds, and its identifier
  was issued before; at most one is pending; its closure agrees with the current state,
  nothing is speaking and the recording is on while it is pending, and the portion it
  was armed with has no sentence mark at its end.
\<close>

definition timers_owned :: "app_state \<Rightarrow> bool" where
  "timers_owned st =
     (0 < nextTimerId st \<and>
      list_all (\<lambda>p. ttsDebounceTimerRef st = Some (fst p) \<and> 0 < fst p \<and> fst p < nextTimerId st)
        (pendingTimeouts st))"

definition closure_current :: "app_state \<Rightarrow> timer_closure \<Rightarrow> bool" where
  "closure_current st c =
     (\<not> isSpeaking st \<and> isRecording st \<and> \<not> tc_isSpeaking c \<and>
      tc_translatedText c = translatedText st \<and>
      tc_targetLanguage c = targetLanguage st \<and>
      tc_newTranslatedPortion c =
        trim (substring (translatedText st) (length (lastSpokenTranslatedTextRef st))) \<and>
      tc_newTranslatedPortion c \<noteq> [] \<and>
      \<not> endsWithPunctuation (tc_newTranslatedPortion c))"

definition timer_fresh :: "app_state \<Rightarrow> bool" where
  "timer_fresh st =
     (length (pendingTimeouts st) \<le> 1 \<and>
      list_all (\<lambda>p. closure_current st (snd p)) (pendingTimeouts st))"

definition state_inv :: "app_state \<Rightarrow> bool" where
  "state_inv st = (timers_owned st \<and> timer_fresh st)"

definition timer_view ::
  "app_state \<Rightarrow> (nat \<times> timer_closure) list \<times> bool \<times> bool \<times> jsstring \<times> jsstring" where
  "timer_view st =
     (pendingTimeouts st, isSpeaking st, isRecording st, targetLanguage st,
      lastSpokenTranslatedTextRef st)"

text \<open>An operation in flight has the flag set, and there is at most one.\<close>

definition active_ok :: "app_state \<Rightarrow> bool" where
  "active_ok st = (ttsActive st \<le> 1 \<and> (0 < ttsActive st \<longrightarrow> isSpeaking st))"

text \<open>
  After a call of \<^verbatim>\<open>speak\<close> without a key: the flag is set, nothing is in flight, and
  every suspended stop handler holds a closure in which the flag is set.
\<close>

definition flag_stuck :: "app_state \<Rightarrow> bool" where
  "flag_stuck st =
     (isSpeaking st \<and> ttsActive st = 0 \<and>
      list_all (\<lambda>c. hc_isSpeaking c \<or> \<not> hc_isRecording c) (suspendedToggles st))"

section \<open>Example configurations and runs\<close>

text \<open>
  A session in which \<open>Thanks for your time\<close> is transcribed and translated without
  a sentence mark, so that the debounce timer is armed (\<open>state_gracias\<close>), the same
  after the timer has fired (\<open>state_playing\<close>), a session with two translation
  requests in flight (\<open>state_listening\<close>), and two runs in which a translation result
  arrives between the click that stops the recording and the resumption of its handler,
  each with the state it ends in.
\<close>

definition all_keys :: env where
  "all_keys = \<lparr>elevenlabs_api_key = Some (js ''sk-e''), azure_api_key = Some (js ''sk-a'')\<rparr>"

definition no_keys :: env where
  "no_keys = \<lparr>elevenlabs_api_key = None, azure_api_key = None\<rparr>"

definition trace_gracias :: "(env \<times> event) list" where
  "trace_gracias =
     [(all_keys, ToggleClick), (all_keys, ToggleResumes 0 True),
      (all_keys, FinalTranscript (js ''Thanks for your time'')),
      (all_keys, TranslationSettles 0 (Translated (js ''Gracias por tu tiempo'')))]"

definition state_gracias :: app_state where
  "state_gracias =
     \<lparr>sourceText = js ''Thanks for your time'', translatedText = js ''Gracias por tu tiempo'',
      isRecording = True, sourceLanguage = js ''Auto-Detect'', targetLanguage = js ''es'',
      lastSpokenTranslatedTextRef = [], ttsDebounceTimerRef = Some 1,
      pendingTimeouts =
        [(1, \<lparr>tc_isSpeaking = False, tc_translatedText = js ''Gracias por tu tiempo'',
              tc_newTranslatedPortion = js ''Gracias por tu tiempo'',
              tc_targetLanguage = js ''es''\<rparr>)],
      nextTimerId = 2, suspendedToggles = [],
      isSpeaking = False, ttsError = None, isTranslating = False,
      translationError = None, ttsStarted = [], ttsRequests = [], ttsActive = 0,
      translateRequests = [(js ''Thanks for your time'', None, js ''es'')],
      translateSettled = [0]\<rparr>"

definition trace_listening :: "(env \<times> event) list" where
  "trace_listening =
     [(all_keys, ToggleClick), (all_keys, ToggleResumes 0 True),
      (all_keys, FinalTranscript (js ''Thanks'')),
      (all_keys, FinalTranscript (js ''a lot''))]"

definition state_listening :: app_state where
  "state_listening =
     \<lparr>sourceText = js ''Thanks a lot'', translatedText = [],
      isRecording = True, sourceLanguage = js ''Auto-Detect'', targetLanguage = js ''es'',
      lastSpokenTranslatedTextRef = [], ttsDebounceTimerRef = None,
      pendingTimeouts = [], nextTimerId = 1, suspendedToggles = [],
      isSpeaking = False, ttsError = None,
      isTranslating = True, translationError = None, ttsStarted = [], ttsRequests = [],
      ttsActive = 0,
      translateRequests = [(js ''Thanks'', None, js ''es''), (js ''Thanks a lot'', None, js ''es'')],
      translateSettled = []\<rparr>"

definition state_playing :: app_state where
  "state_playing =
     \<lparr>sourceText = js ''Thanks for your time'', translatedText = js ''Gracias por tu tiempo'',
      isRecording = True, sourceLanguage = js ''Auto-Detect'', targetLanguage = js ''es'',
      lastSpokenTranslatedTextRef = js ''Gracias por tu tiempo'', ttsDebounceTimerRef = Some 1,
      pendingTimeouts = [],
      nextTimerId = 2, suspendedToggles = [],
      isSpeaking = True, ttsError = None, isTranslating = False,
      translationError = None,
      ttsStarted = [(js ''Gracias por tu tiempo'', js ''es'')],
      ttsRequests = [(js ''Gracias por tu tiempo'', js ''es'')], ttsActive = 1,
      translateRequests = [(js ''Thanks for your time'', None, js ''es'')],
      translateSettled = [0]\<rparr>"

text \<open>
  The recording of \<open>state_gracias\<close> goes on with the fragment \<open>friend\<close>; the button is
  clicked; the translation of the longer text arrives while the handler is suspended.
\<close>

definition trace_late_translation :: "(env \<times> event) list" where
  "trace_late_translation =
     trace_gracias @
     [(all_keys, FinalTranscript (js ''friend'')),
      (all_keys, ToggleClick),
      (all_keys, TranslationSettles 1 (Translated (js ''Gracias por tu tiempo amigo'')))]"

definition state_late_translation :: app_state where
  "state_late_translation =
     \<lparr>sourceText = js ''Thanks for your time friend'',
      translatedText = js ''Gracias por tu tiempo amigo'',
      isRecording = True, sourceLanguage = js ''Auto-Detect'', targetLanguage = js ''es'',
      lastSpokenTranslatedTextRef = [], ttsDebounceTimerRef = Some 2,
      pendingTimeouts =
        [(2, \<lparr>tc_isSpeaking = False, tc_translatedText = js ''Gracias por tu tiempo amigo'',
              tc_newTranslatedPortion = js ''Gracias por tu tiempo amigo'',
              tc_targetLanguage = js ''es''\<rparr>)],
      nextTimerId = 3,
      suspendedToggles =
        [\<lparr>hc_isRecording = True, hc_translatedText = js ''Gracias por tu tiempo'',
          hc_isSpeaking = False, hc_targetLanguage = js ''es''\<rparr>],
      isSpeaking = False, ttsError = None, isTranslating = False,
      translationError = None, ttsStarted = [], ttsRequests = [], ttsActive = 0,
      translateRequests =
        [(js ''Thanks for your time'', None, js ''es''),
         (js ''Thanks for your time friend'', None, js ''es'')],
      translateSettled = [1, 0]\<rparr>"

text \<open>
  In \<open>state_listening\<close> the newer result arrives and arms the timer; the button is
  clicked; the older result, which ends with a full stop, arrives while the handler is
  suspended and is spoken at once.
\<close>

definition trace_spoken_in_await :: "(env \<times> event) list" where
  "trace_spoken_in_await =
     trace_listening @
     [(all_keys, TranslationSettles 1 (Translated (js ''Muchas gracias''))),
      (all_keys, ToggleClick),
      (all_keys, TranslationSettles 0 (Translated (js ''Gracias.'')))]"

definition state_spoken_in_await :: app_state where
  "state_spoken_in_await =
     \<lparr>sourceText = js ''Thanks a lot'', translatedText = js ''Gracias.'',
      isRecording = True, sourceLanguage = js ''Auto-Detect'', targetLanguage = js ''es'',
      lastSpokenTranslatedTextRef = js ''Gracias.'', ttsDebounceTimerRef = Some 1,
      pendingTimeouts = [], nextTimerId = 2,
      suspendedToggles =
        [\<lparr>hc_isRecording = True, hc_translatedText = js ''Muchas gracias'',
          hc_isSpeaking = False, hc_targetLanguage = js ''es''\<rparr>],
      isSpeaking = True, ttsError = None, isTranslating = False,
      translationError = None,
      ttsStarted = [(js ''Gracias.'', js ''es'')],
      ttsRequests = [(js ''Gracias.'', js ''es'')], ttsActive = 1,
      translateRequests = [(js ''Thanks'', None, js ''es''), (js ''Thanks a lot'', None, js ''es'')],
      translateSettled = [0, 1]\<rparr>"

section \<open>Facts about strings\<close>

lemma js_space: "js '' '' = [SPACE]"
  by (simp add: js_def SPACE_def)

lemma js_empty: "js '''' = []"
  by (simp add: js_def)

lemma endsWith_single: "endsWith s [c] = (s \<noteq> [] \<and> last s = c)"
proof (cases s rule: rev_cases)
  case Nil
  then show ?thesis by (simp add: endsWith_def)
next
  case (snoc ys y)
  then show ?thesis by (simp add: endsWith_def)
qed

lemma startsWith_single: "startsWith s [c] = (s \<noteq> [] \<and> hd s = c)"
  by (cases s) (auto simp: startsWith_def)

lemma needsSpace_iff:
  "needsSpace b f =
     (b \<noteq> [] \<and> f \<noteq> [] \<and> last b \<noteq> SPACE \<and> hd f \<noteq> SPACE \<and> \<not> endsWithPunctuation (trim b))"
  by (auto simp: needsSpace_def js_space endsWith_single startsWith_single)

lemma has_double_space_append:
  "has_double_space (xs @ ys) =
     (has_double_space xs \<or> has_double_space ys \<or>
      (xs \<noteq> [] \<and> ys \<noteq> [] \<and> last xs = SPACE \<and> hd ys = SPACE))"
proof (induction xs rule: has_double_space.induct)
  case (1 a b r)
  then show ?case by auto
next
  case (2 a)
  then show ?case by (cases ys) auto
next
  case 3
  then show ?case by simp
qed

lemma onTranscription_double_space:
  "has_double_space (onTranscription b f) = has_double_space (b @ f)"
proof (cases "needsSpace b f")
  case True
  then have nb: "b \<noteq> []" "f \<noteq> []" "last b \<noteq> SPACE" "hd f \<noteq> SPACE"
    by (simp_all add: needsSpace_iff)
  have "has_double_space (SPACE # f) = has_double_space f"
    using nb by (cases f) simp_all
  then have "has_double_space (b @ [SPACE] @ f) = (has_double_space b \<or> has_double_space f)"
    using nb by (simp add: has_double_space_append[of b])
  moreover have "has_double_space (b @ f) = (has_double_space b \<or> has_double_space f)"
    using nb by (simp add: has_double_space_append)
  ultimately show ?thesis
    using True by (simp add: onTranscription_def js_space)
next
  case False
  then show ?thesis by (simp add: onTranscription_def js_empty)
qed

lemma onTranscription_empty_iff: "(onTranscription b f = []) = (b @ f = [])"
  by (simp add: onTranscription_def needsSpace_iff js_empty js_space)

lemma onTranscription_last:
  "f \<noteq> [] \<Longrightarrow> last (onTranscription b f) = last f"
  by (simp add: onTranscription_def)

lemma onTranscription_Nil2: "onTranscription b [] = b"
  by (simp add: onTranscription_def needsSpace_iff js_empty)

lemma accumulate_snoc: "accumulate (fs @ [f]) = onTranscription (accumulate fs) f"
  by (simp add: accumulate_def)

lemma accumulate_shape:
  "(accumulate fs = []) = (concat fs = []) \<and>
   last (accumulate fs) = last (concat fs) \<and>
   has_double_space (accumulate fs) = has_double_space (concat fs)"
proof (induction fs rule: rev_induct)
  case Nil
  then show ?case by (simp add: accumulate_def)
next
  case (snoc f fs)
  show ?case
  proof (cases "f = []")
    case True
    with snoc show ?thesis by (simp add: accumulate_snoc onTranscription_Nil2)
  next
    case False
    have e: "(accumulate (fs @ [f]) = []) = (concat (fs @ [f]) = [])"
      using False by (simp add: accumulate_snoc onTranscription_empty_iff)
    have l: "last (accumulate (fs @ [f])) = last (concat (fs @ [f]))"
      using False by (simp add: accumulate_snoc onTranscription_last)
    have d: "has_double_space (accumulate (fs @ [f])) = has_double_space (concat (fs @ [f]))"
      using snoc False
      by (simp add: accumulate_snoc onTranscription_double_space has_double_space_append)
    from e l d show ?thesis by simp
  qed
qed

lemma dropWhile_last: "dropWhile P xs \<noteq> [] \<Longrightarrow> last (dropWhile P xs) = last xs"
  by (induction xs) (auto split: if_splits)

lemma dropWhile_all: "(\<forall>x\<in>set (dropWhile P xs). P x) = (\<forall>x\<in>set xs. P x)"
  by (induction xs) auto

lemma trim_Nil_iff: "(trim s = []) = (\<forall>c\<in>set s. isWhiteSpace c)"
  by (simp add: trim_def dropWhile_all)

lemma trim_ends:
  assumes "trim s \<noteq> []"
  shows "\<not> isWhiteSpace (hd (trim s)) \<and> \<not> isWhiteSpace (last (trim s))"
proof -
  let ?u = "dropWhile isWhiteSpace s"
  let ?v = "dropWhile isWhiteSpace (rev ?u)"
  from assms have v: "?v \<noteq> []" by (simp add: trim_def)
  then have u: "?u \<noteq> []" by (metis dropWhile.simps(1) rev.simps(1))
  have "hd (trim s) = last ?v" using v by (simp add: trim_def hd_rev)
  also have "\<dots> = last (rev ?u)" using v by (rule dropWhile_last)
  also have "\<dots> = hd ?u" using u by (simp add: last_rev)
  finally have h: "hd (trim s) = hd ?u" .
  have "\<not> isWhiteSpace (hd ?u)" using u by (rule hd_dropWhile)
  moreover have "last (trim s) = hd ?v" using v by (simp add: trim_def last_rev)
  moreover have "\<not> isWhiteSpace (hd ?v)" using v by (rule hd_dropWhile)
  ultimately show ?thesis using h by simp
qed

lemma trim_fixed:
  assumes "s = [] \<or> (\<not> isWhiteSpace (hd s) \<and> \<not> isWhiteSpace (last s))"
  shows "trim s = s"
proof (cases "s = []")
  case True
  then show ?thesis by (simp add: trim_def)
next
  case False
  with assms have h: "\<not> isWhiteSpace (hd s)" and l: "\<not> isWhiteSpace (last s)" by simp_all
  from False h have "dropWhile isWhiteSpace s = s" by (cases s) simp_all
  moreover from False l have "dropWhile isWhiteSpace (rev s) = rev s"
    by (cases s rule: rev_cases) simp_all
  ultimately show ?thesis by (simp add: trim_def)
qed

lemma trim_trim: "trim (trim s) = trim s"
  using trim_ends[of s] by (intro trim_fixed) blast

section \<open>Facts about the handlers and the invariant\<close>

lemma speak_fields [simp]:
  "sourceText (speak e t l s) = sourceText s"
  "translatedText (speak e t l s) = translatedText s"
  "isRecording (speak e t l s) = isRecording s"
  "sourceLanguage (speak e t l s) = sourceLanguage s"
  "suspendedToggles (speak e t l s) = suspendedToggles s"
  "targetLanguage (speak e t l s) = targetLanguage s"
  "lastSpokenTranslatedTextRef (speak e t l s) = lastSpokenTranslatedTextRef s"
  "ttsDebounceTimerRef (speak e t l s) = ttsDebounceTimerRef s"
  "pendingTimeouts (speak e t l s) = pendingTimeouts s"
  "nextTimerId (speak e t l s) = nextTimerId s"
  "isTranslating (speak e t l s) = isTranslating s"
  "translationError (speak e t l s) = translationError s"
  "translateRequests (speak e t l s) = translateRequests s"
  "translateSettled (speak e t l s) = translateSettled s"
  by (simp_all add: speak_def Let_def)

lemma speak_flag: "trim t \<noteq> [] \<Longrightarrow> isSpeaking (speak e t l s)"
  by (simp add: speak_def Let_def)

lemma speak_active:
  "ttsActive (speak e t l s) =
     (if trim t = [] \<or> falsy (elevenlabs_api_key e) then ttsActive s else Suc (ttsActive s))"
  by (simp add: speak_def Let_def)

lemma speak_requests:
  "ttsRequests (speak e t l s) =
     (if trim t = [] \<or> falsy (elevenlabs_api_key e) then ttsRequests s
      else ttsRequests s @ [(t, l)])"
  by (simp add: speak_def Let_def)

lemma speak_started:
  "ttsStarted (speak e t l s) = (if trim t = [] then ttsStarted s else ttsStarted s @ [(t, l)])"
  by (simp add: speak_def Let_def)

lemma clear_debounce_fields [simp]:
  "sourceText (clear_debounce s) = sourceText s"
  "translatedText (clear_debounce s) = translatedText s"
  "isRecording (clear_debounce s) = isRecording s"
  "sourceLanguage (clear_debounce s) = sourceLanguage s"
  "suspendedToggles (clear_debounce s) = suspendedToggles s"
  "targetLanguage (clear_debounce s) = targetLanguage s"
  "lastSpokenTranslatedTextRef (clear_debounce s) = lastSpokenTranslatedTextRef s"
  "ttsDebounceTimerRef (clear_debounce s) = ttsDebounceTimerRef s"
  "nextTimerId (clear_debounce s) = nextTimerId s"
  "isSpeaking (clear_debounce s) = isSpeaking s"
  "ttsError (clear_debounce s) = ttsError s"
  "isTranslating (clear_debounce s) = isTranslating s"
  "translationError (clear_debounce s) = translationError s"
  "ttsStarted (clear_debounce s) = ttsStarted s"
  "ttsRequests (clear_debounce s) = ttsRequests s"
  "ttsActive (clear_debounce s) = ttsActive s"
  "translateRequests (clear_debounce s) = translateRequests s"
  "translateSettled (clear_debounce s) = translateSettled s"
  by (simp_all add: clear_debounce_def split: option.splits)

lemma clear_debounce_owned:
  "timers_owned s \<Longrightarrow> pendingTimeouts (clear_debounce s) = []"
  by (cases "pendingTimeouts s")
    (auto simp: timers_owned_def clear_debounce_def list_all_iff filter_empty_conv
      split: option.splits)

lemma set_debounce_fields [simp]:
  "sourceText (set_debounce c s) = sourceText s"
  "translatedText (set_debounce c s) = translatedText s"
  "isRecording (set_debounce c s) = isRecording s"
  "sourceLanguage (set_debounce c s) = sourceLanguage s"
  "suspendedToggles (set_debounce c s) = suspendedToggles s"
  "targetLanguage (set_debounce c s) = targetLanguage s"
  "lastSpokenTranslatedTextRef (set_debounce c s) = lastSpokenTranslatedTextRef s"
  "isSpeaking (set_debounce c s) = isSpeaking s"
  "ttsError (set_debounce c s) = ttsError s"
  "isTranslating (set_debounce c s) = isTranslating s"
  "translationError (set_debounce c s) = translationError s"
  "ttsStarted (set_debounce c s) = ttsStarted s"
  "ttsRequests (set_debounce c s) = ttsRequests s"
  "ttsActive (set_debounce c s) = ttsActive s"
  "translateRequests (set_debounce c s) = translateRequests s"
  "translateSettled (set_debounce c s) = translateSettled s"
  "pendingTimeouts (set_debounce c s) = pendingTimeouts s @ [(nextTimerId s, c)]"
  "ttsDebounceTimerRef (set_debounce c s) = Some (nextTimerId s)"
  "nextTimerId (set_debounce c s) = Suc (nextTimerId s)"
  by (simp_all add: set_debounce_def)

lemma tts_effect_fields [simp]:
  "sourceText (tts_effect e s) = sourceText s"
  "translatedText (tts_effect e s) = translatedText s"
  "isRecording (tts_effect e s) = isRecording s"
  "sourceLanguage (tts_effect e s) = sourceLanguage s"
  "suspendedToggles (tts_effect e s) = suspendedToggles s"
  "targetLanguage (tts_effect e s) = targetLanguage s"
  "isTranslating (tts_effect e s) = isTranslating s"
  "translationError (tts_effect e s) = translationError s"
  "translateRequests (tts_effect e s) = translateRequests s"
  "translateSettled (tts_effect e s) = translateSettled s"
  by (simp_all add: tts_effect_def Let_def)

lemma trim_substring_nonempty:
  "trim (substring t n) \<noteq> [] \<Longrightarrow> n < length t"
  by (cases "n < length t") (simp_all add: substring_def trim_def)

lemma trim_substring_blank: "trim t = [] \<Longrightarrow> trim (substring t n) = []"
  by (auto simp: trim_Nil_iff substring_def dest: in_set_dropD)

lemma tts_effect_inv:
  assumes "timers_owned s"
  shows "state_inv (tts_effect e s)"
proof -
  let ?s = "clear_debounce s"
  let ?np = "trim (substring (translatedText s) (length (lastSpokenTranslatedTextRef s)))"
  have p: "pendingTimeouts ?s = []" using assms by (rule clear_debounce_owned)
  have n: "0 < nextTimerId s" using assms by (simp add: timers_owned_def)
  have idle: "state_inv ?s"
    using p n by (simp add: state_inv_def timers_owned_def timer_fresh_def)
  have spoken: "state_inv ((speak e ?np (targetLanguage s) ?s)\<lparr>lastSpokenTranslatedTextRef := translatedText s\<rparr>)"
    using p n by (simp add: state_inv_def timers_owned_def timer_fresh_def)
  have armed: "state_inv (set_debounce
        \<lparr>tc_isSpeaking = isSpeaking s, tc_translatedText = translatedText s,
         tc_newTranslatedPortion = ?np, tc_targetLanguage = targetLanguage s\<rparr> ?s)"
    if "?np \<noteq> []" "\<not> isSpeaking s" "isRecording s" "\<not> endsWithPunctuation ?np"
    using that p n
    by (simp add: state_inv_def timers_owned_def timer_fresh_def closure_current_def)
  show ?thesis
    using idle spoken armed by (auto simp: tts_effect_def Let_def)
qed

lemma tts_effect_lastSpoken:
  "lastSpokenTranslatedTextRef (tts_effect e s) = lastSpokenTranslatedTextRef s \<or>
   (lastSpokenTranslatedTextRef (tts_effect e s) = translatedText s \<and>
    length (lastSpokenTranslatedTextRef s) < length (translatedText s))"
  by (auto simp: tts_effect_def Let_def dest: trim_substring_nonempty)

lemma auto_translate_effect_fields [simp]:
  "sourceText (auto_translate_effect e s) = sourceText s"
  "isRecording (auto_translate_effect e s) = isRecording s"
  "sourceLanguage (auto_translate_effect e s) = sourceLanguage s"
  "suspendedToggles (auto_translate_effect e s) = suspendedToggles s"
  "targetLanguage (auto_translate_effect e s) = targetLanguage s"
  "lastSpokenTranslatedTextRef (auto_translate_effect e s) = lastSpokenTranslatedTextRef s"
  "ttsDebounceTimerRef (auto_translate_effect e s) = ttsDebounceTimerRef s"
  "pendingTimeouts (auto_translate_effect e s) = pendingTimeouts s"
  "nextTimerId (auto_translate_effect e s) = nextTimerId s"
  "isSpeaking (auto_translate_effect e s) = isSpeaking s"
  "ttsError (auto_translate_effect e s) = ttsError s"
  "ttsStarted (auto_translate_effect e s) = ttsStarted s"
  "ttsRequests (auto_translate_effect e s) = ttsRequests s"
  "ttsActive (auto_translate_effect e s) = ttsActive s"
  "translateSettled (auto_translate_effect e s) = translateSettled s"
  by (simp_all add: auto_translate_effect_def translateText_begin_def Let_def)

lemma auto_translate_effect_translatedText:
  "translatedText (auto_translate_effect e s) =
     (if trim (sourceText s) \<noteq> [] then translatedText s else [])"
  by (auto simp: auto_translate_effect_def translateText_begin_def Let_def js_empty trim_def)

lemma translateText_settle_fields [simp]:
  "sourceText (snd (translateText_settle r s)) = sourceText s"
  "translatedText (snd (translateText_settle r s)) = translatedText s"
  "isRecording (snd (translateText_settle r s)) = isRecording s"
  "sourceLanguage (snd (translateText_settle r s)) = sourceLanguage s"
  "suspendedToggles (snd (translateText_settle r s)) = suspendedToggles s"
  "targetLanguage (snd (translateText_settle r s)) = targetLanguage s"
  "lastSpokenTranslatedTextRef (snd (translateText_settle r s)) = lastSpokenTranslatedTextRef s"
  "ttsDebounceTimerRef (snd (translateText_settle r s)) = ttsDebounceTimerRef s"
  "pendingTimeouts (snd (translateText_settle r s)) = pendingTimeouts s"
  "nextTimerId (snd (translateText_settle r s)) = nextTimerId s"
  "isSpeaking (snd (translateText_settle r s)) = isSpeaking s"
  "ttsError (snd (translateText_settle r s)) = ttsError s"
  "ttsStarted (snd (translateText_settle r s)) = ttsStarted s"
  "ttsRequests (snd (translateText_settle r s)) = ttsRequests s"
  "ttsActive (snd (translateText_settle r s)) = ttsActive s"
  "translateRequests (snd (translateText_settle r s)) = translateRequests s"
  "translateSettled (snd (translateText_settle r s)) = translateSettled s"
  by (cases r; simp)+

lemma translateAsync_continue_fields [simp]:
  "sourceText (translateAsync_continue r s) = sourceText s"
  "isRecording (translateAsync_continue r s) = isRecording s"
  "sourceLanguage (translateAsync_continue r s) = sourceLanguage s"
  "suspendedToggles (translateAsync_continue r s) = suspendedToggles s"
  "targetLanguage (translateAsync_continue r s) = targetLanguage s"
  "lastSpokenTranslatedTextRef (translateAsync_continue r s) = lastSpokenTranslatedTextRef s"
  "ttsDebounceTimerRef (translateAsync_continue r s) = ttsDebounceTimerRef s"
  "pendingTimeouts (translateAsync_continue r s) = pendingTimeouts s"
  "nextTimerId (translateAsync_continue r s) = nextTimerId s"
  "isSpeaking (translateAsync_continue r s) = isSpeaking s"
  "ttsError (translateAsync_continue r s) = ttsError s"
  "ttsStarted (translateAsync_continue r s) = ttsStarted s"
  "ttsRequests (translateAsync_continue r s) = ttsRequests s"
  "ttsActive (translateAsync_continue r s) = ttsActive s"
  "translateRequests (translateAsync_continue r s) = translateRequests s"
  "translateSettled (translateAsync_continue r s) = translateSettled s"
  "isTranslating (translateAsync_continue r s) = isTranslating s"
  "translationError (translateAsync_continue r s) = translationError s"
  by (cases r; simp)+

lemma inv_pending_cases:
  assumes "state_inv s"
  shows "pendingTimeouts s = [] \<or>
         (\<exists>i c. pendingTimeouts s = [(i, c)] \<and> ttsDebounceTimerRef s = Some i \<and> 0 < i \<and>
                 closure_current s c)"
proof (cases "pendingTimeouts s")
  case Nil
  then show ?thesis by simp
next
  case (Cons p ps)
  with assms have "ps = []" by (simp add: state_inv_def timer_fresh_def)
  with Cons assms show ?thesis
    by (cases p) (simp add: state_inv_def timers_owned_def timer_fresh_def)
qed

lemma handle_timeout:
  assumes "state_inv s"
  shows "handle e (TimeoutFires i) s = s \<and> map_of (pendingTimeouts s) i = None \<or>
         (\<exists>c. pendingTimeouts s = [(i, c)] \<and> closure_current s c \<and>
              handle e (TimeoutFires i) s =
                (speak e (tc_newTranslatedPortion c) (targetLanguage s) (s\<lparr>pendingTimeouts := []\<rparr>))
                  \<lparr>lastSpokenTranslatedTextRef := translatedText s\<rparr>)"
  using inv_pending_cases[OF assms]
  by (auto simp: debounce_callback_def closure_current_def)

lemma speak_settle_fields [simp]:
  "sourceText (speak_settle out s) = sourceText s"
  "translatedText (speak_settle out s) = translatedText s"
  "isRecording (speak_settle out s) = isRecording s"
  "sourceLanguage (speak_settle out s) = sourceLanguage s"
  "suspendedToggles (speak_settle out s) = suspendedToggles s"
  "targetLanguage (speak_settle out s) = targetLanguage s"
  "lastSpokenTranslatedTextRef (speak_settle out s) = lastSpokenTranslatedTextRef s"
  "ttsDebounceTimerRef (speak_settle out s) = ttsDebounceTimerRef s"
  "pendingTimeouts (speak_settle out s) = pendingTimeouts s"
  "nextTimerId (speak_settle out s) = nextTimerId s"
  "ttsStarted (speak_settle out s) = ttsStarted s"
  "ttsRequests (speak_settle out s) = ttsRequests s"
  "ttsActive (speak_settle out s) = ttsActive s - 1"
  "translateRequests (speak_settle out s) = translateRequests s"
  "translateSettled (speak_settle out s) = translateSettled s"
  by (cases out; simp)+

lemma toggle_begin_fields [simp]:
  "isRecording (handleRecordingToggle_begin c s) = isRecording s"
  "sourceLanguage (handleRecordingToggle_begin c s) = sourceLanguage s"
  "targetLanguage (handleRecordingToggle_begin c s) = targetLanguage s"
  "ttsDebounceTimerRef (handleRecordingToggle_begin c s) = ttsDebounceTimerRef s"
  "nextTimerId (handleRecordingToggle_begin c s) = nextTimerId s"
  "suspendedToggles (handleRecordingToggle_begin c s) = suspendedToggles s @ [c]"
  "isSpeaking (handleRecordingToggle_begin c s) = isSpeaking s"
  "ttsError (handleRecordingToggle_begin c s) = ttsError s"
  "ttsStarted (handleRecordingToggle_begin c s) = ttsStarted s"
  "ttsRequests (handleRecordingToggle_begin c s) = ttsRequests s"
  "ttsActive (handleRecordingToggle_begin c s) = ttsActive s"
  "translateRequests (handleRecordingToggle_begin c s) = translateRequests s"
  "translateSettled (handleRecordingToggle_begin c s) = translateSettled s"
  by (simp_all add: handleRecordingToggle_begin_def Let_def)

lemma toggle_begin_stop:
  "hc_isRecording c \<Longrightarrow>
   handleRecordingToggle_begin c s = s\<lparr>suspendedToggles := suspendedToggles s @ [c]\<rparr>"
  by (simp add: handleRecordingToggle_begin_def)

lemma toggle_begin_start:
  assumes "\<not> hc_isRecording c"
  shows "lastSpokenTranslatedTextRef (handleRecordingToggle_begin c s) = []"
    and "translatedText (handleRecordingToggle_begin c s) = []"
    and "sourceText (handleRecordingToggle_begin c s) = []"
    and "timers_owned s \<Longrightarrow> pendingTimeouts (handleRecordingToggle_begin c s) = []"
proof -
  let ?r = "s\<lparr>sourceText := js [], translatedText := js [], lastSpokenTranslatedTextRef := js []\<rparr>"
  show "lastSpokenTranslatedTextRef (handleRecordingToggle_begin c s) = []"
    "translatedText (handleRecordingToggle_begin c s) = []"
    "sourceText (handleRecordingToggle_begin c s) = []"
    using assms by (simp_all add: handleRecordingToggle_begin_def Let_def js_empty)
  assume "timers_owned s"
  then have "timers_owned ?r" by (simp add: timers_owned_def)
  then have "pendingTimeouts (clear_debounce ?r) = []" by (rule clear_debounce_owned)
  with assms show "pendingTimeouts (handleRecordingToggle_begin c s) = []"
    by (simp add: handleRecordingToggle_begin_def Let_def)
qed

lemma toggle_resume_fields [simp]:
  "sourceText (handleRecordingToggle_resume e ok c s) = sourceText s"
  "translatedText (handleRecordingToggle_resume e ok c s) = translatedText s"
  "sourceLanguage (handleRecordingToggle_resume e ok c s) = sourceLanguage s"
  "targetLanguage (handleRecordingToggle_resume e ok c s) = targetLanguage s"
  "ttsDebounceTimerRef (handleRecordingToggle_resume e ok c s) = ttsDebounceTimerRef s"
  "nextTimerId (handleRecordingToggle_resume e ok c s) = nextTimerId s"
  "suspendedToggles (handleRecordingToggle_resume e ok c s) = suspendedToggles s"
  "translateRequests (handleRecordingToggle_resume e ok c s) = translateRequests s"
  "translateSettled (handleRecordingToggle_resume e ok c s) = translateSettled s"
  by (simp_all add: handleRecordingToggle_resume_def Let_def)

lemma toggle_resume_start:
  "\<not> hc_isRecording c \<Longrightarrow>
   handleRecordingToggle_resume e ok c s = (if ok then s\<lparr>isRecording := True\<rparr> else s)"
  by (simp add: handleRecordingToggle_resume_def)

lemma toggle_resume_stop_pending:
  assumes "timers_owned s" and "hc_isRecording c"
  shows "pendingTimeouts (handleRecordingToggle_resume e ok c s) = []"
    and "\<not> isRecording (handleRecordingToggle_resume e ok c s)"
proof -
  from assms(1) have "timers_owned (s\<lparr>isRecording := False\<rparr>)" by (simp add: timers_owned_def)
  then have "pendingTimeouts (clear_debounce (s\<lparr>isRecording := False\<rparr>)) = []"
    by (rule clear_debounce_owned)
  with assms(2) show "pendingTimeouts (handleRecordingToggle_resume e ok c s) = []"
    by (simp add: handleRecordingToggle_resume_def Let_def)
  from assms(2) show "\<not> isRecording (handleRecordingToggle_resume e ok c s)"
    by (simp add: handleRecordingToggle_resume_def Let_def)
qed

lemma timer_fresh_view:
  assumes "timer_fresh s"
    and "timer_view s' = timer_view s"
    and "translatedText s' = translatedText s"
  shows "timer_fresh s'"
  using assms
  by (simp add: timer_fresh_def timer_view_def closure_current_def)

lemma timer_fresh_Nil: "pendingTimeouts s = [] \<Longrightarrow> timer_fresh s"
  by (simp add: timer_fresh_def)

lemma timers_owned_Nil: "pendingTimeouts s = [] \<Longrightarrow> 0 < nextTimerId s \<Longrightarrow> timers_owned s"
  by (simp add: timers_owned_def)

lemma handle_nextTimerId: "nextTimerId (handle e ev s) = nextTimerId s"
proof (cases ev)
  case (TranslationSettles i r)
  then show ?thesis by (cases r) simp_all
next
  case (TimeoutFires i)
  then show ?thesis by (simp add: debounce_callback_def split: option.splits)
qed simp_all

lemma handle_owned:
  assumes "state_inv s"
  shows "timers_owned (handle e ev s)"
proof -
  from assms have own: "timers_owned s" by (simp add: state_inv_def)
  then have n: "0 < nextTimerId (handle e ev s)"
    by (simp add: handle_nextTimerId timers_owned_def)
  show ?thesis
  proof (cases ev)
    case (FinalTranscript chunk)
    with own show ?thesis by (simp add: timers_owned_def)
  next
    case (TranslationSettles i r)
    with own show ?thesis by (cases r) (simp_all add: timers_owned_def)
  next
    case (TimeoutFires i)
    from handle_timeout[OF assms, of e i] own n show ?thesis
      unfolding TimeoutFires by (auto intro: timers_owned_Nil)
  next
    case (SpeakSettles out)
    with own show ?thesis by (simp add: timers_owned_def)
  next
    case ToggleClick
    show ?thesis
    proof (cases "isRecording s")
      case True
      with own show ?thesis
        by (simp add: ToggleClick toggle_begin_stop capture_def timers_owned_def)
    next
      case False
      then have "\<not> hc_isRecording (capture s)" by (simp add: capture_def)
      from toggle_begin_start(4)[OF this own] n show ?thesis
        by (auto intro: timers_owned_Nil simp: ToggleClick)
    qed
  next
    case (ToggleResumes k ok)
    show ?thesis
    proof (cases "k < length (suspendedToggles s)")
      case False
      with own show ?thesis by (simp add: ToggleResumes)
    next
      case True
      let ?c = "suspendedToggles s ! k"
      let ?s = "s\<lparr>suspendedToggles := take k (suspendedToggles s) @ drop (Suc k) (suspendedToggles s)\<rparr>"
      from own have o: "timers_owned ?s" by (simp add: timers_owned_def)
      show ?thesis
      proof (cases "hc_isRecording ?c")
        case r: True
        from toggle_resume_stop_pending(1)[OF o r, of e ok] n True show ?thesis
          by (auto intro: timers_owned_Nil simp: ToggleResumes)
      next
        case r: False
        with o True show ?thesis
          by (simp add: ToggleResumes toggle_resume_start timers_owned_def)
      qed
    qed
  next
    case (SetSourceLanguage l)
    with own show ?thesis by (simp add: timers_owned_def)
  next
    case (SetTargetLanguage l)
    with own show ?thesis by (simp add: timers_owned_def)
  qed
qed

lemma handle_fresh:
  assumes "state_inv s" and "tts_deps (handle e ev s) = tts_deps s"
  shows "timer_fresh (handle e ev s)"
proof -
  from assms(1) have f: "timer_fresh s" and own: "timers_owned s"
    by (simp_all add: state_inv_def)
  show ?thesis
  proof (cases ev)
    case (FinalTranscript chunk)
    then show ?thesis by (auto intro: timer_fresh_view[OF f] simp: timer_view_def)
  next
    case (TranslationSettles i r)
    with assms(2) have "translatedText (handle e ev s) = translatedText s"
      by (simp add: tts_deps_def)
    moreover have "timer_view (handle e ev s) = timer_view s"
      unfolding TranslationSettles by (cases r) (simp_all add: timer_view_def)
    ultimately show ?thesis by (rule timer_fresh_view[OF f, rotated])
  next
    case (TimeoutFires i)
    from handle_timeout[OF assms(1), of e i] assms(2) f show ?thesis
      unfolding TimeoutFires
      by (auto simp: tts_deps_def closure_current_def speak_flag trim_trim)
  next
    case (SpeakSettles out)
    from assms(2) have "isSpeaking (handle e ev s) = isSpeaking s" by (simp add: tts_deps_def)
    then have "timer_view (handle e ev s) = timer_view s"
      by (simp add: SpeakSettles timer_view_def split: if_splits)
    moreover have "translatedText (handle e ev s) = translatedText s"
      by (simp add: SpeakSettles)
    ultimately show ?thesis by (rule timer_fresh_view[OF f])
  next
    case ToggleClick
    show ?thesis
    proof (cases "isRecording s")
      case True
      then show ?thesis
        by (auto intro: timer_fresh_view[OF f]
            simp: ToggleClick toggle_begin_stop capture_def timer_view_def)
    next
      case False
      then have "\<not> hc_isRecording (capture s)" by (simp add: capture_def)
      from toggle_begin_start(4)[OF this own] show ?thesis
        by (auto intro: timer_fresh_Nil simp: ToggleClick)
    qed
  next
    case (ToggleResumes k ok)
    show ?thesis
    proof (cases "k < length (suspendedToggles s)")
      case False
      with f show ?thesis by (simp add: ToggleResumes)
    next
      case True
      let ?c = "suspendedToggles s ! k"
      let ?s = "s\<lparr>suspendedToggles := take k (suspendedToggles s) @ drop (Suc k) (suspendedToggles s)\<rparr>"
      from own have o: "timers_owned ?s" by (simp add: timers_owned_def)
      show ?thesis
      proof (cases "hc_isRecording ?c")
        case r: True
        from toggle_resume_stop_pending(1)[OF o r, of e ok] True show ?thesis
          by (auto intro: timer_fresh_Nil simp: ToggleResumes)
      next
        case r: False
        from assms(2) have "isRecording (handle e ev s) = isRecording s"
          by (simp add: tts_deps_def)
        with r True have "timer_view (handle e ev s) = timer_view s"
          by (simp add: ToggleResumes toggle_resume_start timer_view_def split: if_splits)
        moreover have "translatedText (handle e ev s) = translatedText s"
          using True by (simp add: ToggleResumes)
        ultimately show ?thesis by (rule timer_fresh_view[OF f])
      qed
    qed
  next
    case (SetSourceLanguage l)
    then show ?thesis by (auto intro: timer_fresh_view[OF f] simp: timer_view_def)
  next
    case (SetTargetLanguage l)
    with assms(2) show ?thesis
      by (auto intro: timer_fresh_view[OF f] simp: timer_view_def tts_deps_def)
  qed
qed

lemma auto_translate_effect_owned:
  "timers_owned s \<Longrightarrow> timers_owned (auto_translate_effect e s)"
  by (simp add: timers_owned_def)

lemma auto_translate_effect_view:
  "timer_view (auto_translate_effect e s) = timer_view s"
  by (simp add: timer_view_def)

lemma tts_effect_speaking: "isSpeaking s \<Longrightarrow> tts_effect e s = clear_debounce s"
  by (simp add: tts_effect_def Let_def)

lemma tts_effect_blank: "trim (translatedText s) = [] \<Longrightarrow> tts_effect e s = clear_debounce s"
  by (simp add: tts_effect_def Let_def)

lemma tts_effect_flag_kept: "isSpeaking s \<Longrightarrow> isSpeaking (tts_effect e s)"
  by (simp add: tts_effect_speaking)

lemma render_effects_fields [simp]:
  "sourceText (render_effects e prev cur) = sourceText cur"
  "isRecording (render_effects e prev cur) = isRecording cur"
  "sourceLanguage (render_effects e prev cur) = sourceLanguage cur"
  "targetLanguage (render_effects e prev cur) = targetLanguage cur"
  "translateSettled (render_effects e prev cur) = translateSettled cur"
  "suspendedToggles (render_effects e prev cur) = suspendedToggles cur"
  by (simp_all add: render_effects_def Let_def)

lemma render_effects_inv:
  assumes w: "timers_owned cur"
    and f: "tts_deps cur = tts_deps prev \<longrightarrow> timer_fresh cur"
  shows "timers_owned (render_effects e prev cur) \<and>
         (tts_deps (render_effects e prev cur) = tts_deps cur \<longrightarrow>
            timer_fresh (render_effects e prev cur))"
proof -
  define s1 where "s1 = (if tts_deps cur = tts_deps prev then cur else tts_effect e cur)"
  have i1: "state_inv s1"
    using w f tts_effect_inv[OF w, of e] by (auto simp: s1_def state_inv_def)
  have t1: "translatedText s1 = translatedText cur" by (simp add: s1_def)
  have r: "render_effects e prev cur =
      (if translate_deps cur = translate_deps prev then s1 else auto_translate_effect e s1)"
    by (simp add: render_effects_def s1_def Let_def)
  have w': "timers_owned (render_effects e prev cur)"
    using i1 by (simp add: r state_inv_def auto_translate_effect_owned)
  have v: "timer_view (render_effects e prev cur) = timer_view s1"
    by (simp add: r auto_translate_effect_view)
  have "timer_fresh (render_effects e prev cur)"
    if "tts_deps (render_effects e prev cur) = tts_deps cur"
  proof -
    from that t1 have "translatedText (render_effects e prev cur) = translatedText s1"
      by (simp add: tts_deps_def)
    with i1 v show ?thesis
      by (auto intro: timer_fresh_view simp: state_inv_def)
  qed
  with w' show ?thesis by blast
qed

text \<open>The second render runs the playback effect at most, and then it only clears the timer.\<close>

lemma second_render:
  "render_effects e cur (render_effects e prev cur) = render_effects e prev cur \<or>
   render_effects e cur (render_effects e prev cur) = clear_debounce (render_effects e prev cur)"
proof -
  let ?r = "render_effects e prev cur"
  have td: "translate_deps ?r = translate_deps cur" by (simp add: translate_deps_def)
  show ?thesis
  proof (cases "tts_deps ?r = tts_deps cur")
    case True
    with td show ?thesis by (simp add: render_effects_def[of e cur] Let_def)
  next
    case False
    then have "translatedText ?r \<noteq> translatedText cur \<or> isSpeaking ?r \<noteq> isSpeaking cur"
      by (simp add: tts_deps_def)
    then have "trim (translatedText ?r) = [] \<or> isSpeaking ?r"
      by (auto simp: render_effects_def Let_def auto_translate_effect_translatedText trim_def
          tts_effect_flag_kept split: if_splits)
    then have "tts_effect e ?r = clear_debounce ?r"
      by (auto simp: tts_effect_speaking tts_effect_blank)
    with td False show ?thesis by (simp add: render_effects_def[of e cur] Let_def)
  qed
qed

lemma rerender_cases:
  "rerender e old new = render_effects e old new \<or>
   rerender e old new = clear_debounce (render_effects e old new)"
  unfolding rerender_def by (rule second_render)

lemma rerender_stable:
  "render_effects e (render_effects e old new) (rerender e old new) = rerender e old new"
proof -
  have "tts_deps (rerender e old new) = tts_deps (render_effects e old new)"
    using rerender_cases[of e old new] by (auto simp: tts_deps_def)
  moreover have "translate_deps (rerender e old new) = translate_deps (render_effects e old new)"
    using rerender_cases[of e old new] by (auto simp: translate_deps_def)
  ultimately show ?thesis
    by (simp add: render_effects_def[of e "render_effects e old new"] Let_def)
qed

lemma rerender_inv:
  assumes w: "timers_owned h"
    and f: "tts_deps h = tts_deps s \<longrightarrow> timer_fresh h"
  shows "state_inv (rerender e s h)"
proof -
  let ?r1 = "render_effects e s h"
  from render_effects_inv[OF w f, of e]
  have w1: "timers_owned ?r1" and f1: "tts_deps ?r1 = tts_deps h \<longrightarrow> timer_fresh ?r1" by simp_all
  from render_effects_inv[OF w1 f1, of e]
  have w2: "timers_owned (rerender e s h)"
    and f2: "tts_deps (rerender e s h) = tts_deps ?r1 \<longrightarrow> timer_fresh (rerender e s h)"
    by (simp_all add: rerender_def)
  have "tts_deps (rerender e s h) = tts_deps ?r1"
    using rerender_cases[of e s h] by (auto simp: tts_deps_def)
  with w2 f2 show ?thesis by (simp add: state_inv_def)
qed

lemma step_inv: "state_inv s \<Longrightarrow> state_inv (step e ev s)"
  unfolding step_def
  by (rule rerender_inv) (simp_all add: handle_owned handle_fresh)

lemma init_inv: "state_inv init_state"
  by (simp add: state_inv_def timers_owned_def timer_fresh_def init_state_def)

lemma run_snoc: "run (tr @ [(e, ev)]) s = step e ev (run tr s)"
  by (simp add: run_def)

lemma run_append: "run (tr @ tr') s = run tr' (run tr s)"
  by (simp add: run_def)

lemma run_inv: "state_inv s \<Longrightarrow> state_inv (run tr s)"
  by (induction tr rule: rev_induct) (auto simp: run_snoc step_inv run_def)

lemma reachable_inv: "state_inv (run tr init_state)"
  by (rule run_inv[OF init_inv])

lemma tts_effect_watermark: "watermark s \<le> watermark (tts_effect e s)"
  using tts_effect_lastSpoken[of e s] by (auto simp: watermark_def)

lemma render_effects_watermark: "watermark cur \<le> watermark (render_effects e prev cur)"
  by (simp add: render_effects_def Let_def tts_effect_watermark)
    (simp add: watermark_def tts_effect_watermark[unfolded watermark_def])

lemma rerender_watermark: "watermark h \<le> watermark (rerender e s h)"
  unfolding rerender_def
  using render_effects_watermark[of h e s]
    render_effects_watermark[of "render_effects e s h" e h]
  by simp

lemma handle_watermark:
  assumes "state_inv s" and "\<not> start_click ev s"
  shows "watermark s \<le> watermark (handle e ev s)"
proof (cases ev)
  case (FinalTranscript chunk)
  then show ?thesis by (simp add: watermark_def)
next
  case (TranslationSettles i r)
  then show ?thesis by (cases r) (simp_all add: watermark_def)
next
  case (TimeoutFires i)
  from handle_timeout[OF assms(1), of e i]
  consider "handle e (TimeoutFires i) s = s"
    | c where "closure_current s c"
        "handle e (TimeoutFires i) s =
           (speak e (tc_newTranslatedPortion c) (targetLanguage s) (s\<lparr>pendingTimeouts := []\<rparr>))
             \<lparr>lastSpokenTranslatedTextRef := translatedText s\<rparr>"
    by blast
  then show ?thesis
  proof cases
    case 1
    then show ?thesis unfolding TimeoutFires by simp
  next
    case 2
    from 2(1) have "length (lastSpokenTranslatedTextRef s) < length (translatedText s)"
      by (auto simp: closure_current_def dest: trim_substring_nonempty)
    then show ?thesis unfolding TimeoutFires 2(2) by (simp add: watermark_def)
  qed
next
  case (SpeakSettles out)
  then show ?thesis by (simp add: watermark_def)
next
  case ToggleClick
  with assms(2) have "isRecording s" by simp
  then show ?thesis
    by (simp add: ToggleClick toggle_begin_stop capture_def watermark_def)
next
  case (ToggleResumes k ok)
  then show ?thesis
    by (auto simp: handleRecordingToggle_resume_def Let_def watermark_def
        dest: trim_substring_nonempty)
next
  case (SetSourceLanguage l)
  then show ?thesis by (simp add: watermark_def)
next
  case (SetTargetLanguage l)
  then show ?thesis by (simp add: watermark_def)
qed

lemma step_watermark:
  assumes "state_inv s" and "\<not> start_click ev s"
  shows "watermark s \<le> watermark (step e ev s)"
  using handle_watermark[OF assms, of e] rerender_watermark[of "handle e ev s" e s]
  by (simp add: step_def)

lemma step_start_click:
  assumes "\<not> isRecording s"
  shows "lastSpokenTranslatedTextRef (step e ToggleClick s) = [] \<and>
         translatedText (step e ToggleClick s) = []"
proof -
  let ?h = "handle e ToggleClick s"
  from assms have c: "\<not> hc_isRecording (capture s)" by (simp add: capture_def)
  from toggle_begin_start(1-3)[OF c, of s]
  have h: "lastSpokenTranslatedTextRef ?h = []" "translatedText ?h = []" "sourceText ?h = []"
    by simp_all
  then have "tts_effect e ?h = clear_debounce ?h"
    by (simp add: tts_effect_blank trim_def)
  with h have "lastSpokenTranslatedTextRef (render_effects e s ?h) = [] \<and>
      translatedText (render_effects e s ?h) = []"
    by (simp add: render_effects_def Let_def auto_translate_effect_translatedText trim_def)
  with rerender_cases[of e s ?h] show ?thesis
    by (auto simp: step_def)
qed

lemma rerender_translatedText:
  "translate_deps h = translate_deps s \<Longrightarrow> translatedText (rerender e s h) = translatedText h"
  using rerender_cases[of e s h]
  by (auto simp: render_effects_def Let_def)

lemma tts_effect_pending:
  assumes "timers_owned s"
  shows "\<forall>p\<in>set (pendingTimeouts (tts_effect e s)). fst p = nextTimerId s"
proof -
  from assms have "pendingTimeouts (clear_debounce s) = []"
    by (simp add: clear_debounce_owned)
  then show ?thesis
    by (auto simp: tts_effect_def Let_def split: if_splits)
qed

lemma clear_debounce_pending: "set (pendingTimeouts (clear_debounce s)) \<subseteq> set (pendingTimeouts s)"
  by (auto simp: clear_debounce_def split: option.splits)

lemma step_arms:
  assumes "state_inv s" and "nextTimerId (step e ev s) \<noteq> nextTimerId s"
  shows "\<forall>p\<in>set (pendingTimeouts (step e ev s)). fst p = nextTimerId s"
proof -
  let ?h = "handle e ev s"
  let ?r = "render_effects e s ?h"
  have w: "timers_owned ?h" by (rule handle_owned[OF assms(1)])
  have n: "nextTimerId (step e ev s) = nextTimerId ?r"
    and p: "set (pendingTimeouts (step e ev s)) \<subseteq> set (pendingTimeouts ?r)"
    using rerender_cases[of e s ?h] clear_debounce_pending[of ?r]
    by (auto simp: step_def)
  from assms(2) n have "tts_deps ?h \<noteq> tts_deps s"
    by (auto simp: render_effects_def Let_def handle_nextTimerId split: if_splits)
  then have "pendingTimeouts ?r = pendingTimeouts (tts_effect e ?h)"
    by (simp add: render_effects_def Let_def)
  with tts_effect_pending[OF w, of e] p show ?thesis
    by (auto simp: handle_nextTimerId)
qed

lemma pending_ids_old:
  "state_inv s \<Longrightarrow> \<forall>p\<in>set (pendingTimeouts s). fst p < nextTimerId s"
  by (simp add: state_inv_def timers_owned_def list_all_iff)

lemma run_single: "run [(e, ev)] s = step e ev s"
  by (simp add: run_def)

lemma run_Cons: "run (p # tr) s = run tr (step (fst p) (snd p) s)"
  by (simp add: run_def)

lemma list_all_take_drop:
  "list_all P xs \<Longrightarrow> list_all P (take n xs @ drop (Suc n) xs)"
  by (auto simp: list_all_iff dest: in_set_takeD in_set_dropD)

lemma stuck_step:
  assumes "state_inv s" and "flag_stuck s"
  shows "flag_stuck (step e ev s)"
proof -
  let ?h = "handle e ev s"
  from assms(2) have sp: "isSpeaking s" and a0: "ttsActive s = 0"
    and cl: "list_all (\<lambda>c. hc_isSpeaking c \<or> \<not> hc_isRecording c) (suspendedToggles s)"
    by (simp_all add: flag_stuck_def)
  from inv_pending_cases[OF assms(1)] sp have p: "pendingTimeouts s = []"
    by (auto simp: closure_current_def)
  have h: "flag_stuck ?h"
  proof (cases ev)
    case (FinalTranscript chunk)
    with assms(2) show ?thesis by (simp add: flag_stuck_def)
  next
    case (TranslationSettles i r)
    with assms(2) show ?thesis by (cases r) (simp_all add: flag_stuck_def)
  next
    case (TimeoutFires i)
    with assms(2) p show ?thesis by (simp add: flag_stuck_def)
  next
    case (SpeakSettles out)
    with assms(2) show ?thesis by (simp add: flag_stuck_def)
  next
    case ToggleClick
    with sp a0 cl show ?thesis
      by (simp add: flag_stuck_def handleRecordingToggle_begin_def capture_def Let_def)
  next
    case (ToggleResumes k ok)
    show ?thesis
    proof (cases "k < length (suspendedToggles s)")
      case False
      with assms(2) ToggleResumes show ?thesis by simp
    next
      case True
      let ?c = "suspendedToggles s ! k"
      let ?s = "s\<lparr>suspendedToggles := take k (suspendedToggles s) @ drop (Suc k) (suspendedToggles s)\<rparr>"
      from cl True have c: "hc_isSpeaking ?c \<or> \<not> hc_isRecording ?c"
        by (simp add: list_all_length)
      have r: "list_all (\<lambda>c. hc_isSpeaking c \<or> \<not> hc_isRecording c) (suspendedToggles ?s)"
        using list_all_take_drop[OF cl] by simp
      have "flag_stuck (handleRecordingToggle_resume e ok ?c ?s)"
        using c r sp a0
        by (auto simp: handleRecordingToggle_resume_def Let_def flag_stuck_def)
      with True ToggleResumes show ?thesis by simp
    qed
  next
    case (SetSourceLanguage l)
    with assms(2) show ?thesis by (simp add: flag_stuck_def)
  next
    case (SetTargetLanguage l)
    with assms(2) show ?thesis by (simp add: flag_stuck_def)
  qed
  then have "flag_stuck (render_effects e s ?h)"
    by (simp add: render_effects_def Let_def tts_effect_speaking flag_stuck_def)
  with rerender_cases[of e s ?h] show ?thesis
    by (auto simp: step_def flag_stuck_def)
qed

lemma stuck_run:
  "state_inv s \<Longrightarrow> flag_stuck s \<Longrightarrow> flag_stuck (run tr s)"
proof (induction tr rule: rev_induct)
  case Nil
  then show ?case by (simp add: run_def)
next
  case (snoc x xs)
  then have "state_inv (run xs s)" "flag_stuck (run xs s)"
    by (simp_all add: run_inv)
  from stuck_step[OF this] show ?case
    by (cases x) (simp add: run_snoc)
qed

lemma tts_effect_active:
  assumes "active_ok s"
  shows "active_ok (tts_effect e s)"
proof (cases "isSpeaking s")
  case True
  with assms show ?thesis by (simp add: tts_effect_speaking active_ok_def)
next
  case False
  with assms have a0: "ttsActive s = 0" by (auto simp: active_ok_def)
  have t: "trim (trim (substring (translatedText s) (length (lastSpokenTranslatedTextRef s)))) \<noteq> []"
    if "trim (substring (translatedText s) (length (lastSpokenTranslatedTextRef s))) \<noteq> []"
    using that by (simp add: trim_trim)
  show ?thesis
    using a0 False t
    by (auto simp: tts_effect_def Let_def active_ok_def speak_active speak_flag set_debounce_def)
qed

lemma auto_translate_effect_active:
  "active_ok (auto_translate_effect e s) = active_ok s"
  by (simp add: active_ok_def)

lemma render_effects_active:
  "active_ok cur \<Longrightarrow> active_ok (render_effects e prev cur)"
  by (simp add: render_effects_def Let_def tts_effect_active auto_translate_effect_active)

lemma clear_debounce_active: "active_ok (clear_debounce s) = active_ok s"
  by (simp add: active_ok_def)

lemma rerender_active: "active_ok h \<Longrightarrow> active_ok (rerender e s h)"
  unfolding rerender_def by (intro render_effects_active)

lemma handle_active:
  assumes "state_inv s" and "active_ok s" and "\<not> stale_stop ev s"
  shows "active_ok (handle e ev s)"
proof (cases ev)
  case (FinalTranscript chunk)
  with assms(2) show ?thesis by (simp add: active_ok_def)
next
  case (TranslationSettles i r)
  with assms(2) show ?thesis by (cases r) (simp_all add: active_ok_def)
next
  case (TimeoutFires i)
  from handle_timeout[OF assms(1), of e i]
  consider "handle e (TimeoutFires i) s = s"
    | c where "closure_current s c"
        "handle e (TimeoutFires i) s =
           (speak e (tc_newTranslatedPortion c) (targetLanguage s) (s\<lparr>pendingTimeouts := []\<rparr>))
             \<lparr>lastSpokenTranslatedTextRef := translatedText s\<rparr>"
    by blast
  then show ?thesis
  proof cases
    case 1
    with assms(2) show ?thesis unfolding TimeoutFires by simp
  next
    case 2
    from 2(1) have ns: "\<not> isSpeaking s" and t: "trim (tc_newTranslatedPortion c) \<noteq> []"
      by (auto simp: closure_current_def trim_trim)
    with assms(2) have "ttsActive s = 0" by (auto simp: active_ok_def)
    with t show ?thesis unfolding TimeoutFires 2(2)
      by (simp add: active_ok_def speak_active speak_flag)
  qed
next
  case (SpeakSettles out)
  with assms(2) show ?thesis by (cases out) (auto simp: active_ok_def)
next
  case ToggleClick
  with assms(2) show ?thesis
    by (simp add: active_ok_def handleRecordingToggle_begin_def Let_def)
next
  case (ToggleResumes k ok)
  show ?thesis
  proof (cases "k < length (suspendedToggles s)")
    case False
    with assms(2) ToggleResumes show ?thesis by simp
  next
    case True
    let ?c = "suspendedToggles s ! k"
    let ?s = "s\<lparr>suspendedToggles := take k (suspendedToggles s) @ drop (Suc k) (suspendedToggles s)\<rparr>"
    let ?s1 = "clear_debounce (?s\<lparr>isRecording := False\<rparr>)"
    let ?rem = "trim (substring (hc_translatedText ?c) (length (lastSpokenTranslatedTextRef ?s1)))"
    from assms(3) True ToggleResumes
    have c: "hc_isRecording ?c \<Longrightarrow> \<not> hc_isSpeaking ?c \<Longrightarrow> \<not> isSpeaking s" by simp
    have "active_ok (handleRecordingToggle_resume e ok ?c ?s)"
    proof (cases "hc_isRecording ?c \<and> ?rem \<noteq> [] \<and> \<not> hc_isSpeaking ?c")
      case False
      with assms(2) show ?thesis
        by (auto simp: handleRecordingToggle_resume_def Let_def active_ok_def)
    next
      case sp: True
      with c have "\<not> isSpeaking s" by simp
      with assms(2) have a0: "ttsActive s = 0" by (auto simp: active_ok_def)
      from sp have t: "trim ?rem \<noteq> []" by (simp add: trim_trim)
      from sp have "handleRecordingToggle_resume e ok ?c ?s =
          (speak e ?rem (hc_targetLanguage ?c) ?s1)
            \<lparr>lastSpokenTranslatedTextRef := hc_translatedText ?c\<rparr>"
        by (simp add: handleRecordingToggle_resume_def Let_def)
      with t a0 show ?thesis
        by (simp add: active_ok_def speak_active speak_flag)
    qed
    with True ToggleResumes show ?thesis by simp
  qed
next
  case (SetSourceLanguage l)
  with assms(2) show ?thesis by (simp add: active_ok_def)
next
  case (SetTargetLanguage l)
  with assms(2) show ?thesis by (simp add: active_ok_def)
qed

lemma step_active:
  "state_inv s \<Longrightarrow> active_ok s \<Longrightarrow> \<not> stale_stop ev s \<Longrightarrow> active_ok (step e ev s)"
  unfolding step_def by (intro rerender_active handle_active)

lemma run_active:
  "state_inv s \<Longrightarrow> active_ok s \<Longrightarrow> fresh_stops tr s \<Longrightarrow> active_ok (run tr s)"
proof (induction tr arbitrary: s)
  case Nil
  then show ?case by (simp add: run_def)
next
  case (Cons p tr)
  from Cons.prems have "state_inv (step (fst p) (snd p) s)" "active_ok (step (fst p) (snd p) s)"
    "fresh_stops tr (step (fst p) (snd p) s)"
    by (simp_all add: step_inv step_active)
  from Cons.IH[OF this] show ?case by (simp add: run_Cons)
qed

lemma init_active: "active_ok init_state"
  by (simp add: active_ok_def init_state_def)

lemma resume_stop_fresh:
  assumes "timers_owned s" and "isRecording s" and "\<not> isSpeaking s"
    and "trim (substring (translatedText s) (watermark s)) \<noteq> []"
  shows "handleRecordingToggle_resume e ok (capture s) s =
         (speak e (trim (substring (translatedText s) (watermark s))) (targetLanguage s)
            (s\<lparr>isRecording := False, pendingTimeouts := []\<rparr>))
           \<lparr>lastSpokenTranslatedTextRef := translatedText s\<rparr>"
proof -
  have o: "timers_owned (s\<lparr>isRecording := False\<rparr>)"
    using assms(1) by (simp add: timers_owned_def)
  have "pendingTimeouts (clear_debounce (s\<lparr>isRecording := False\<rparr>)) = []"
    using clear_debounce_owned[OF o] by simp
  then have c: "clear_debounce (s\<lparr>isRecording := False\<rparr>) =
      s\<lparr>isRecording := False, pendingTimeouts := []\<rparr>"
    by (auto simp: clear_debounce_def split: option.splits if_splits)
  show ?thesis
    using assms(2-4)
    by (simp add: handleRecordingToggle_resume_def capture_def Let_def c watermark_def)
qed

lemma run_gracias: "run trace_gracias init_state = state_gracias"
  by code_simp

lemma run_listening: "run trace_listening init_state = state_listening"
  by code_simp

lemma step_playing: "step all_keys (TimeoutFires 1) state_gracias = state_playing"
  by code_simp

lemma run_playing:
  "run (trace_gracias @ [(all_keys, TimeoutFires 1)]) init_state = state_playing"
  by (simp only: run_snoc run_gracias step_playing)

lemma run_late_translation: "run trace_late_translation init_state = state_late_translation"
proof -
  have "run [(all_keys, FinalTranscript (js ''friend'')), (all_keys, ToggleClick),
             (all_keys, TranslationSettles 1 (Translated (js ''Gracias por tu tiempo amigo'')))]
          state_gracias = state_late_translation"
    by code_simp
  then show ?thesis
    by (simp only: trace_late_translation_def run_append run_gracias)
qed

lemma run_spoken_in_await: "run trace_spoken_in_await init_state = state_spoken_in_await"
proof -
  have "run [(all_keys, TranslationSettles 1 (Translated (js ''Muchas gracias''))),
             (all_keys, ToggleClick),
             (all_keys, TranslationSettles 0 (Translated (js ''Gracias.'')))]
          state_listening = state_spoken_in_await"
    by code_simp
  then show ?thesis
    by (simp only: trace_spoken_in_await_def run_append run_listening)
qed

lemma run_stop_click:
  "run (trace_gracias @ [(all_keys, ToggleClick)]) init_state =
     state_gracias\<lparr>suspendedToggles := [capture state_gracias]\<rparr>"
  unfolding run_append run_gracias by code_simp

lemma portion_gracias:
  "trim (substring (translatedText state_gracias) (watermark state_gracias)) =
     js ''Gracias por tu tiempo''"
  by code_simp

section \<open>The spacing rule of the accumulator\<close>

text \<open>
  Claim C1, as the code has it: for every buffer \<open>b\<close> and fragment \<open>f\<close> the accumulator
  yields \<open>b\<close>, one space, \<open>f\<close>, except that it yields the plain concatenation when
  \<open>b\<close> is empty, \<open>f\<close> is empty, \<open>b\<close> ends with a space character (U+0020), \<open>f\<close>
  begins with a space character, or the trimmed \<open>b\<close> ends with a full stop, a question
  mark or an exclamation mark. The boundary test looks for the space character only;
  trimming strips every kind of whitespace.
\<close>

theorem onTranscription_spacing_rule:
  "onTranscription b f =
     (if b = [] \<or> f = [] \<or> endsWith b [SPACE] \<or> startsWith f [SPACE] \<or>
         endsWithPunctuation (trim b)
      then b @ f else b @ [SPACE] @ f)"
  by (auto simp: onTranscription_def needsSpace_iff endsWith_single startsWith_single
      js_space js_empty)

text \<open>The rule at three boundaries: a plain one, one with a trailing space, one after a mark.\<close>

theorem onTranscription_spacing_rule_witness:
  "onTranscription (js ''Hello'') (js ''world'') = js ''Hello world'' \<and>
   onTranscription (js ''Hello '') (js ''world'') = js ''Hello world'' \<and>
   onTranscription (js ''Done!'') (js ''Next'') = js ''Done!Next''"
  using onTranscription_spacing_rule[of "js ''Hello''" "js ''world''"]
    onTranscription_spacing_rule[of "js ''Hello ''" "js ''world''"]
    onTranscription_spacing_rule[of "js ''Done!''" "js ''Next''"]
  by (simp add: js_def SPACE_def endsWith_def startsWith_def endsWithPunctuation_def
      sentence_mark_def trim_def isWhiteSpace_def)

text \<open>
  With whitespace in general the rule of C1 fails: a buffer that ends with a TAB (U+0009)
  still gets a space inserted, where the rule in the specification's words gives the
  plain concatenation.
\<close>

theorem spacing_rule_whitespace_counterexample:
  "onTranscription (js ''Hello'' @ [0x9]) (js ''world'') = js ''Hello'' @ [0x9] @ js '' world'' \<and>
   spec_spacing_rule (js ''Hello'' @ [0x9]) (js ''world'') = js ''Hello'' @ [0x9] @ js ''world'' \<and>
   onTranscription (js ''Hello'' @ [0x9]) (js ''world'') \<noteq>
     spec_spacing_rule (js ''Hello'' @ [0x9]) (js ''world'')"
  by code_simp

text \<open>
  Claim C8, as the code has it: appending \<open>World\<close> to \<open>Hello.\<close> gives \<open>Hello.World\<close>,
  with no space after the sentence mark; for every sequence of fragments the accumulated
  buffer contains a double space exactly when the plain concatenation of the fragments
  contains one, so the accumulator never creates a double space; and a single space is
  inserted at every boundary where both sides are non-empty, neither side has a space
  character at the boundary and the trimmed buffer does not end with a sentence mark.
\<close>

theorem accumulate_boundaries:
  "onTranscription (js ''Hello.'') (js ''World'') = js ''Hello.World'' \<and>
   has_double_space (accumulate fs) = has_double_space (concat fs) \<and>
   (b \<noteq> [] \<and> f \<noteq> [] \<and> \<not> endsWith b [SPACE] \<and> \<not> startsWith f [SPACE] \<and>
      \<not> endsWithPunctuation (trim b) \<longrightarrow>
    onTranscription b f = b @ [SPACE] @ f)"
proof -
  have a: "onTranscription (js ''Hello.'') (js ''World'') = js ''Hello.World''"
    by code_simp
  have c: "b \<noteq> [] \<and> f \<noteq> [] \<and> \<not> endsWith b [SPACE] \<and> \<not> startsWith f [SPACE] \<and>
      \<not> endsWithPunctuation (trim b) \<longrightarrow> onTranscription b f = b @ [SPACE] @ f"
    by (auto simp: onTranscription_def needsSpace_iff endsWith_single startsWith_single js_space)
  from a accumulate_shape[of fs] c show ?thesis by simp
qed

text \<open>Three fragments without spaces accumulate without a double space, each separated.\<close>

theorem accumulate_boundaries_witness:
  "has_double_space (accumulate [js ''Hello'', js ''world'', js ''again'']) = False \<and>
   onTranscription (js ''Hello'') (js ''world'') = js ''Hello'' @ [SPACE] @ js ''world''"
  using accumulate_boundaries[of "[js ''Hello'', js ''world'', js ''again'']" "js ''Hello''" "js ''world''"]
  by (simp add: js_def SPACE_def endsWith_def startsWith_def endsWithPunctuation_def
      sentence_mark_def trim_def isWhiteSpace_def)

text \<open>
  C8 as stated fails twice: the code yields \<open>Hello.World\<close> where the claim has
  \<open>Hello. World\<close>, and a fragment that begins with a space, after a buffer that ends
  with one, leaves a double space in the buffer.
\<close>

theorem period_boundary_counterexample:
  "onTranscription (js ''Hello.'') (js ''World'') = js ''Hello.World'' \<and>
   onTranscription (js ''Hello.'') (js ''World'') \<noteq> js ''Hello. World'' \<and>
   accumulate [js ''Hello '', js '' world''] = js ''Hello  world'' \<and>
   has_double_space (accumulate [js ''Hello '', js '' world''])"
  by code_simp

section \<open>The synthesis call\<close>

text \<open>
  Claim C10: for every text that is empty or consists of whitespace only,
  \<^verbatim>\<open>speak(text, language)\<close> returns at once: the state is unchanged, so no request
  goes to the network, the currently-speaking flag is not set and the error state stays
  as it was.
\<close>

theorem speak_blank_text:
  "\<forall>c\<in>set text. isWhiteSpace c \<Longrightarrow>
   speak e text language st = st \<and>
   ttsRequests (speak e text language st) = ttsRequests st \<and>
   isSpeaking (speak e text language st) = isSpeaking st \<and>
   ttsError (speak e text language st) = ttsError st"
  by (simp add: speak_def trim_Nil_iff)

text \<open>A space, a TAB and a line feed, with a key configured.\<close>

theorem speak_blank_text_witness:
  "speak \<lparr>elevenlabs_api_key = Some (js ''key''), azure_api_key = None\<rparr>
     [0x20, 0x9, 0xA] (js ''es'') init_state = init_state"
proof -
  have "\<forall>c\<in>set [0x20, 0x9, 0xA :: jschar]. isWhiteSpace c"
    by (simp add: isWhiteSpace_def)
  from speak_blank_text[OF this] show ?thesis by simp
qed

section \<open>The translation results\<close>

text \<open>
  Claim C3, as the code has it: whenever a translation request that has not settled yet
  settles with a non-empty translation, that translation becomes the translated buffer,
  whatever the position of the request in the order of issue; the last result to arrive
  wins. Nothing tags results with a sequence number and nothing cancels a superseded
  request.
\<close>

theorem translation_applied_on_arrival:
  "i < length (translateRequests st) \<and> i \<notin> set (translateSettled st) \<and> t \<noteq> [] \<longrightarrow>
   translatedText (step e (TranslationSettles i (Translated t)) st) = t"
  by (simp add: step_def rerender_translatedText translate_deps_def)

text \<open>The second of two requests in flight settles first and its result is applied.\<close>

theorem translation_applied_on_arrival_witness:
  "translatedText (step all_keys (TranslationSettles 1 (Translated (js ''Muchas gracias'')))
     (run trace_listening init_state)) = js ''Muchas gracias''"
proof -
  have "1 < length (translateRequests state_listening) \<and>
        1 \<notin> set (translateSettled state_listening) \<and> js ''Muchas gracias'' \<noteq> []"
    by (simp add: state_listening_def js_def)
  with translation_applied_on_arrival[of 1 state_listening "js ''Muchas gracias''" all_keys]
  show ?thesis by (simp add: run_listening)
qed

text \<open>
  C3 as stated fails: two requests are issued, for \<open>Thanks\<close> and then for
  \<open>Thanks a lot\<close>; the result of the second arrives first and is applied, then the
  result of the first arrives and overwrites it.
\<close>

theorem stale_translation_overwrites_counterexample:
  "map fst (translateRequests (run trace_listening init_state)) =
     [js ''Thanks'', js ''Thanks a lot''] \<and>
   translatedText (run (trace_listening @
     [(all_keys, TranslationSettles 1 (Translated (js ''Muchas gracias'')))]) init_state) =
     js ''Muchas gracias'' \<and>
   translatedText (run (trace_listening @
     [(all_keys, TranslationSettles 1 (Translated (js ''Muchas gracias''))),
      (all_keys, TranslationSettles 0 (Translated (js ''Gracias'')))]) init_state) =
     js ''Gracias''"
  unfolding run_append run_listening by code_simp

section \<open>Missing credentials\<close>



text \<open>
  Claim C6 fails in the code on the missing-credential path: \<^verbatim>\<open>speak\<close> called with a
  non-blank text and no key sets the currently-speaking flag, records the error and
  returns with no operation in flight, so nothing is left to clear the flag: it stays
  set along every run that follows. The \<^verbatim>\<open>catch\<close> block (a failed request, a
  response that is not ok) and the two audio handlers (end of playback, playback error)
  do clear it; a rejected \<^verbatim>\<open>play()\<close> leaves it as it was.
\<close>

theorem speak_missing_key_flag_stays:
  "isSpeaking (speak no_keys (js ''Hola.'') (js ''es'') init_state) \<and>
   ttsActive (speak no_keys (js ''Hola.'') (js ''es'') init_state) = 0 \<and>
   ttsError (speak no_keys (js ''Hola.'') (js ''es'') init_state) =
     Some (js ''ElevenLabs API key not configured'') \<and>
   (\<forall>tr. isSpeaking (run tr (speak no_keys (js ''Hola.'') (js ''es'') init_state))) \<and>
   \<not> isSpeaking (speak_settle (FetchFailed m) st) \<and>
   \<not> isSpeaking (speak_settle (ResponseNotOk statusText) st) \<and>
   \<not> isSpeaking (speak_settle PlaybackEnded st) \<and>
   \<not> isSpeaking (speak_settle PlaybackError st) \<and>
   isSpeaking (speak_settle PlayRejected st) = isSpeaking st"
proof -
  let ?s = "speak no_keys (js ''Hola.'') (js ''es'') init_state"
  have t: "trim (js ''Hola.'') \<noteq> []" by code_simp
  have f: "falsy (elevenlabs_api_key no_keys)" by (simp add: falsy_def no_keys_def)
  have a: "isSpeaking ?s" using t by (rule speak_flag)
  have b: "ttsActive ?s = 0" using f by (simp add: speak_active init_state_def)
  have c: "ttsError ?s = Some (js ''ElevenLabs API key not configured'')"
    using t f by (simp add: speak_def Let_def)
  have i: "state_inv ?s"
    by (simp add: state_inv_def timers_owned_def timer_fresh_def) (simp add: init_state_def)
  have "suspendedToggles ?s = []" by (simp add: init_state_def)
  with a b have "flag_stuck ?s" by (simp add: flag_stuck_def)
  from stuck_run[OF i this] have "isSpeaking (run tr ?s)" for tr
    by (simp add: flag_stuck_def)
  with a b c show ?thesis by simp
qed

text \<open>The flag is still set after a playback event, a click and the start of a recording.\<close>

theorem speak_missing_key_flag_stays_witness:
  "isSpeaking (run [(all_keys, SpeakSettles PlaybackEnded), (all_keys, ToggleClick),
                    (all_keys, ToggleResumes 0 True)]
     (speak no_keys (js ''Hola.'') (js ''es'') init_state))"
  using speak_missing_key_flag_stays by blast

section \<open>One playback at a time\<close>

text \<open>
  Claim C2, as the code has it: every caller of the synthesis call checks the
  currently-speaking flag of its own render first. The speak-decision step does nothing
  but cancel the pending timer while the flag is set; the timer callback and the stop
  handler do nothing, respectively do not call \<^verbatim>\<open>speak\<close>, when the flag in their
  closure is set. The synthesis call itself makes no such check: called with a non-blank
  text and a configured key it posts a request and adds an operation in flight, whatever
  the flag says. Along a run from the initial state at most one operation is in flight
  as long as no stop handler resumes with a cleared flag in its closure while the flag
  in the state is set.
\<close>

theorem single_playback_by_callers:
  "(fresh_stops tr init_state \<longrightarrow> ttsActive (run tr init_state) \<le> 1) \<and>
   (isSpeaking st \<longrightarrow> tts_effect e st = clear_debounce st) \<and>
   (tc_isSpeaking c \<longrightarrow> debounce_callback e c st = st) \<and>
   (hc_isRecording h \<and> hc_isSpeaking h \<longrightarrow>
      ttsStarted (handleRecordingToggle_resume e startOk h st) = ttsStarted st \<and>
      ttsActive (handleRecordingToggle_resume e startOk h st) = ttsActive st) \<and>
   (trim txt \<noteq> [] \<and> \<not> falsy (elevenlabs_api_key e) \<longrightarrow>
      ttsActive (speak e txt language st) = Suc (ttsActive st) \<and>
      ttsRequests (speak e txt language st) = ttsRequests st @ [(txt, language)])"
proof -
  have a: "fresh_stops tr init_state \<longrightarrow> ttsActive (run tr init_state) \<le> 1"
    using run_active[OF init_inv init_active, of tr] by (simp add: active_ok_def)
  have b: "hc_isRecording h \<and> hc_isSpeaking h \<longrightarrow>
      ttsStarted (handleRecordingToggle_resume e startOk h st) = ttsStarted st \<and>
      ttsActive (handleRecordingToggle_resume e startOk h st) = ttsActive st"
    by (simp add: handleRecordingToggle_resume_def Let_def)
  have c: "tc_isSpeaking c \<longrightarrow> debounce_callback e c st = st"
    by (simp add: debounce_callback_def)
  from a b c show ?thesis
    by (simp add: tts_effect_speaking speak_active speak_requests)
qed

text \<open>
  The example run followed by a stop whose handler resumes at once has one operation in
  flight; while that utterance plays the effect only clears the timer, and a timer
  callback and a stop handler created in that render do not speak; from the initial
  state \<^verbatim>\<open>speak\<close> posts a request.
\<close>

theorem single_playback_by_callers_witness:
  "ttsActive (run (trace_gracias @ [(all_keys, ToggleClick), (all_keys, ToggleResumes 0 True)])
     init_state) \<le> 1 \<and>
   tts_effect all_keys state_playing = clear_debounce state_playing \<and>
   debounce_callback all_keys
     \<lparr>tc_isSpeaking = True, tc_translatedText = js ''Gracias por tu tiempo amigo'',
      tc_newTranslatedPortion = js ''amigo'', tc_targetLanguage = js ''es''\<rparr>
     state_playing = state_playing \<and>
   ttsStarted (handleRecordingToggle_resume all_keys True (capture state_playing) state_playing) =
     ttsStarted state_playing \<and>
   ttsRequests (speak all_keys (js ''Hola.'') (js ''es'') init_state) = [(js ''Hola.'', js ''es'')]"
proof -
  let ?tr = "trace_gracias @ [(all_keys, ToggleClick), (all_keys, ToggleResumes 0 True)]"
  let ?c = "\<lparr>tc_isSpeaking = True, tc_translatedText = js ''Gracias por tu tiempo amigo'',
      tc_newTranslatedPortion = js ''amigo'', tc_targetLanguage = js ''es''\<rparr>"
  have f: "fresh_stops ?tr init_state" by code_simp
  have t: "trim (js ''Hola.'') \<noteq> []" by code_simp
  have k: "\<not> falsy (elevenlabs_api_key all_keys)" by code_simp
  have s: "isSpeaking state_playing" by (simp add: state_playing_def)
  have h: "hc_isRecording (capture state_playing) \<and> hc_isSpeaking (capture state_playing)"
    by (simp add: capture_def state_playing_def)
  from single_playback_by_callers[of ?tr state_playing all_keys ?c "capture state_playing" True]
    single_playback_by_callers[of "[]" init_state all_keys ?c "capture state_playing" True
      "js ''Hola.''" "js ''es''"]
    f t k s h
  show ?thesis by (simp add: init_state_def)
qed

text \<open>
  C2 as stated fails. In the state reached when the example run has dispatched its
  utterance, the flag is set and one operation is in flight; a call of \<^verbatim>\<open>speak\<close>
  there is not rejected, it posts a second request. And along a run: two translation
  requests are in flight, the result of the second arms the timer, the button is
  clicked, the result of the first (\<open>Gracias.\<close>) arrives while the stop handler is
  suspended and is spoken at once; the handler then resumes with the cleared flag of its
  closure and speaks as well: two operations are in flight.
\<close>

theorem second_playback_counterexample:
  "isSpeaking (run (trace_gracias @ [(all_keys, TimeoutFires 1)]) init_state) \<and>
   ttsActive (run (trace_gracias @ [(all_keys, TimeoutFires 1)]) init_state) = 1 \<and>
   ttsActive (speak all_keys (js ''Adios.'') (js ''es'')
     (run (trace_gracias @ [(all_keys, TimeoutFires 1)]) init_state)) = 2 \<and>
   ttsRequests (speak all_keys (js ''Adios.'') (js ''es'')
     (run (trace_gracias @ [(all_keys, TimeoutFires 1)]) init_state)) =
     [(js ''Gracias por tu tiempo'', js ''es''), (js ''Adios.'', js ''es'')] \<and>
   isSpeaking (run trace_spoken_in_await init_state) \<and>
   ttsActive (run trace_spoken_in_await init_state) = 1 \<and>
   ttsActive (run (trace_spoken_in_await @ [(all_keys, ToggleResumes 0 True)]) init_state) = 2 \<and>
   ttsRequests (run (trace_spoken_in_await @ [(all_keys, ToggleResumes 0 True)]) init_state) =
     [(js ''Gracias.'', js ''es''), (js ''racias'', js ''es'')]"
  unfolding run_snoc run_spoken_in_await run_playing by code_simp

section \<open>The spoken watermark\<close>

text \<open>
  Claim C4, as the code has it: in every state reached by a run from the initial state,
  a click on the button while the recording is off sets the watermark to 0 (the handler
  resets it before it awaits the start of the recording, whether or not the start then
  succeeds), and no other step (a transcript, a translation result, a fired timer, a
  settled playback, a click that stops the recording, the resumption of a handler, a
  choice of language) decreases it. The speak-decision step leaves the watermark as it
  is or moves it forward to the full length of the translated buffer. No step keeps the
  watermark within the length of the buffer when the buffer is replaced.
\<close>

theorem watermark_steps:
  assumes "st = run tr init_state" and "st' = step e ev st"
  shows "(if start_click ev st then watermark st' = 0 else watermark st \<le> watermark st') \<and>
         (watermark (tts_effect e s) = watermark s \<or>
          watermark s < watermark (tts_effect e s) \<and>
          watermark (tts_effect e s) = length (translatedText (tts_effect e s)))"
proof -
  have a: "if start_click ev st then watermark st' = 0 else watermark st \<le> watermark st'"
  proof (cases "start_click ev st")
    case True
    then have ev: "ev = ToggleClick" and nr: "\<not> isRecording st"
      by (cases ev; simp)+
    from step_start_click[OF nr, of e] True show ?thesis
      by (simp add: watermark_def ev assms(2))
  next
    case False
    have "state_inv st" using assms(1) reachable_inv by simp
    from step_watermark[OF this False, of e] False show ?thesis
      by (simp add: assms(2))
  qed
  have b: "watermark (tts_effect e s) = watermark s \<or>
      watermark s < watermark (tts_effect e s) \<and>
      watermark (tts_effect e s) = length (translatedText (tts_effect e s))"
    using tts_effect_lastSpoken[of e s] by (auto simp: watermark_def)
  from a b show ?thesis by blast
qed

text \<open>
  The fired timer of the example run does not move the watermark back, and the first
  click resets it.
\<close>

theorem watermark_steps_witness:
  "watermark (run trace_gracias init_state) \<le>
     watermark (step all_keys (TimeoutFires 1) (run trace_gracias init_state)) \<and>
   watermark (step all_keys (TimeoutFires 1) (run trace_gracias init_state)) = 21 \<and>
   watermark (step all_keys ToggleClick init_state) = 0"
proof -
  have a: "\<not> start_click (TimeoutFires 1) (run trace_gracias init_state)" by simp
  have c: "start_click ToggleClick (run [] init_state)"
    by (simp add: run_def init_state_def)
  have d: "watermark (step all_keys (TimeoutFires 1) (run trace_gracias init_state)) = 21"
    unfolding run_gracias step_playing by (simp add: state_playing_def watermark_def js_def)
  from watermark_steps[OF refl refl, of "TimeoutFires 1" trace_gracias all_keys]
    watermark_steps[OF refl refl, of ToggleClick "[]" all_keys] a c d
  show ?thesis by (simp add: run_def)
qed

text \<open>
  C4 as stated fails on the bound: the result \<open>Muchas gracias.\<close> is spoken at once
  and the watermark becomes 15; the older result \<open>Gracias.\<close> then replaces the buffer,
  whose length is 8. And the reset is not tied to a session that starts: after the
  recording has been stopped, a click resets the watermark from 15 to 0, and when
  \<^verbatim>\<open>startRecording\<close> then fails no recording is on.
\<close>

theorem watermark_above_buffer_counterexample:
  "watermark (run (trace_listening @
     [(all_keys, TranslationSettles 1 (Translated (js ''Muchas gracias.''))),
      (all_keys, TranslationSettles 0 (Translated (js ''Gracias.'')))]) init_state) = 15 \<and>
   length (translatedText (run (trace_listening @
     [(all_keys, TranslationSettles 1 (Translated (js ''Muchas gracias.''))),
      (all_keys, TranslationSettles 0 (Translated (js ''Gracias.'')))]) init_state)) = 8 \<and>
   watermark (run (trace_listening @
     [(all_keys, TranslationSettles 1 (Translated (js ''Muchas gracias.''))),
      (all_keys, TranslationSettles 0 (Translated (js ''Gracias.''))),
      (all_keys, ToggleClick), (all_keys, ToggleResumes 0 True)]) init_state) = 15 \<and>
   watermark (run (trace_listening @
     [(all_keys, TranslationSettles 1 (Translated (js ''Muchas gracias.''))),
      (all_keys, TranslationSettles 0 (Translated (js ''Gracias.''))),
      (all_keys, ToggleClick), (all_keys, ToggleResumes 0 True),
      (all_keys, ToggleClick), (all_keys, ToggleResumes 0 False)]) init_state) = 0 \<and>
   \<not> isRecording (run (trace_listening @
     [(all_keys, TranslationSettles 1 (Translated (js ''Muchas gracias.''))),
      (all_keys, TranslationSettles 0 (Translated (js ''Gracias.''))),
      (all_keys, ToggleClick), (all_keys, ToggleResumes 0 True),
      (all_keys, ToggleClick), (all_keys, ToggleResumes 0 False)]) init_state)"
  unfolding run_append run_listening by code_simp

section \<open>The debounce timer\<close>

text \<open>
  Claim C5: in every state reached by a run from the initial state at most one timeout
  is pending; when a step arms a timeout (the next identifier moves on), no timeout that
  was pending before the step is pending after it, and what is pending after it carries
  the identifier issued in the step; when a pending timeout fires, the callback speaks
  the portion it was armed with and advances the watermark exactly when the unspoken
  portion read in the current state equals that portion and nothing is speaking, and
  otherwise does nothing; and for every closure and state, the callback leaves the state
  as it is when the portion it reads again differs from the one it was armed with.
\<close>

theorem debounce_supersession:
  assumes "st = run tr init_state" and "st' = step e ev st"
  shows "length (pendingTimeouts st) \<le> 1 \<and>
         (nextTimerId st' \<noteq> nextTimerId st \<longrightarrow>
            set (pendingTimeouts st) \<inter> set (pendingTimeouts st') = {} \<and>
            (\<forall>p\<in>set (pendingTimeouts st'). fst p = nextTimerId st)) \<and>
         ((i, c) \<in> set (pendingTimeouts st) \<longrightarrow>
            handle e (TimeoutFires i) st =
              (if trim (substring (translatedText st) (watermark st)) = tc_newTranslatedPortion c \<and>
                  \<not> isSpeaking st
               then (speak e (tc_newTranslatedPortion c) (targetLanguage st)
                       (st\<lparr>pendingTimeouts := []\<rparr>))
                      \<lparr>lastSpokenTranslatedTextRef := translatedText st\<rparr>
               else st\<lparr>pendingTimeouts := []\<rparr>)) \<and>
         (trim (substring (tc_translatedText c') (length (lastSpokenTranslatedTextRef s))) \<noteq>
            tc_newTranslatedPortion c' \<longrightarrow> debounce_callback e c' s = s)"
proof -
  have inv: "state_inv st" using assms(1) reachable_inv by simp
  then have a: "length (pendingTimeouts st) \<le> 1"
    by (simp add: state_inv_def timer_fresh_def)
  have b: "nextTimerId st' \<noteq> nextTimerId st \<longrightarrow>
      set (pendingTimeouts st) \<inter> set (pendingTimeouts st') = {} \<and>
      (\<forall>p\<in>set (pendingTimeouts st'). fst p = nextTimerId st)"
    using step_arms[OF inv, of e ev] pending_ids_old[OF inv] assms(2) by fastforce
  have c: "(i, c) \<in> set (pendingTimeouts st) \<longrightarrow>
      handle e (TimeoutFires i) st =
        (if trim (substring (translatedText st) (watermark st)) = tc_newTranslatedPortion c \<and>
            \<not> isSpeaking st
         then (speak e (tc_newTranslatedPortion c) (targetLanguage st) (st\<lparr>pendingTimeouts := []\<rparr>))
                \<lparr>lastSpokenTranslatedTextRef := translatedText st\<rparr>
         else st\<lparr>pendingTimeouts := []\<rparr>)"
  proof
    assume m: "(i, c) \<in> set (pendingTimeouts st)"
    then have "map_of (pendingTimeouts st) i \<noteq> None"
      by (metis map_of_eq_None_iff fst_conv image_eqI)
    with handle_timeout[OF inv, of e i] m
    show "handle e (TimeoutFires i) st =
        (if trim (substring (translatedText st) (watermark st)) = tc_newTranslatedPortion c \<and>
            \<not> isSpeaking st
         then (speak e (tc_newTranslatedPortion c) (targetLanguage st) (st\<lparr>pendingTimeouts := []\<rparr>))
                \<lparr>lastSpokenTranslatedTextRef := translatedText st\<rparr>
         else st\<lparr>pendingTimeouts := []\<rparr>)"
      by (auto simp: closure_current_def watermark_def)
  qed
  have d: "trim (substring (tc_translatedText c') (length (lastSpokenTranslatedTextRef s))) \<noteq>
      tc_newTranslatedPortion c' \<longrightarrow> debounce_callback e c' s = s"
    by (simp add: debounce_callback_def)
  from a b c d show ?thesis by blast
qed

text \<open>
  In the example run one timeout is pending, with identifier 1; a newer translation arms
  timeout 2 and timeout 1 is gone; fired, timeout 1 speaks the portion; and the same
  closure run in the state where that portion has been spoken already does nothing.
\<close>

theorem debounce_supersession_witness:
  "length (pendingTimeouts (run trace_gracias init_state)) \<le> 1 \<and>
   map fst (pendingTimeouts
          (run (trace_gracias @ [(all_keys, FinalTranscript (js ''friend''))]) init_state)) = [1] \<and>
   map fst (pendingTimeouts (step all_keys
     (TranslationSettles 1 (Translated (js ''Gracias por tu tiempo amigo'')))
     (run (trace_gracias @ [(all_keys, FinalTranscript (js ''friend''))]) init_state))) = [2] \<and>
   set (pendingTimeouts
          (run (trace_gracias @ [(all_keys, FinalTranscript (js ''friend''))]) init_state)) \<inter>
   set (pendingTimeouts (step all_keys
     (TranslationSettles 1 (Translated (js ''Gracias por tu tiempo amigo'')))
     (run (trace_gracias @ [(all_keys, FinalTranscript (js ''friend''))]) init_state))) = {} \<and>
   ttsStarted (handle all_keys (TimeoutFires 1) (run trace_gracias init_state)) =
     [(js ''Gracias por tu tiempo'', js ''es'')] \<and>
   debounce_callback all_keys
     \<lparr>tc_isSpeaking = False, tc_translatedText = js ''Gracias por tu tiempo'',
      tc_newTranslatedPortion = js ''Gracias por tu tiempo'', tc_targetLanguage = js ''es''\<rparr>
     state_playing = state_playing"
proof -
  let ?c = "\<lparr>tc_isSpeaking = False, tc_translatedText = js ''Gracias por tu tiempo'',
      tc_newTranslatedPortion = js ''Gracias por tu tiempo'', tc_targetLanguage = js ''es''\<rparr>"
  let ?tr2 = "trace_gracias @ [(all_keys, FinalTranscript (js ''friend''))]"
  let ?ev2 = "TranslationSettles 1 (Translated (js ''Gracias por tu tiempo amigo''))"
  have n0: "nextTimerId (run ?tr2 init_state) = 2"
    unfolding run_append run_gracias by code_simp
  have n1: "nextTimerId (step all_keys ?ev2 (run ?tr2 init_state)) = 3"
    unfolding run_append run_gracias by code_simp
  have i0: "map fst (pendingTimeouts (run ?tr2 init_state)) = [1]"
    unfolding run_append run_gracias by code_simp
  have i1: "map fst (pendingTimeouts (step all_keys ?ev2 (run ?tr2 init_state))) = [2]"
    unfolding run_append run_gracias by code_simp
  have m: "(1, ?c) \<in> set (pendingTimeouts (run trace_gracias init_state))"
    by (simp add: run_gracias state_gracias_def)
  have p: "trim (substring (translatedText (run trace_gracias init_state))
              (watermark (run trace_gracias init_state))) = js ''Gracias por tu tiempo''"
    by (simp add: run_gracias portion_gracias)
  have q: "\<not> isSpeaking (run trace_gracias init_state)"
    by (simp add: run_gracias state_gracias_def)
  have t: "trim (js ''Gracias por tu tiempo'') \<noteq> []" by code_simp
  have d: "trim (substring (tc_translatedText ?c) (length (lastSpokenTranslatedTextRef state_playing)))
             \<noteq> tc_newTranslatedPortion ?c"
    by code_simp
  have s: "ttsStarted (run trace_gracias init_state) = []"
    "targetLanguage (run trace_gracias init_state) = js ''es''"
    by (simp_all add: run_gracias state_gracias_def)
  from debounce_supersession[OF refl refl, of trace_gracias all_keys "FinalTranscript []" 1 ?c
      ?c state_playing]
    debounce_supersession[OF refl refl, of ?tr2 all_keys ?ev2]
    n0 n1 i0 i1 m p q d t s
  show ?thesis by (simp add: speak_started)
qed

section \<open>Stopping the recording\<close>

text \<open>
  Claim C7 fails in the code when something is handled between the click and the
  resumption of the stop handler. The handler does what the claim says when its closure
  is that of the current render: in every state reached by a run from the initial state
  in which the recording is on, nothing is speaking and the trimmed unspoken portion of
  the translated buffer is not empty, the resumed handler leaves no timeout pending,
  calls \<^verbatim>\<open>speak\<close> once, with that portion, turns the recording off and sets the
  watermark to the length of the buffer. But the handler goes on after its
  \<^verbatim>\<open>await\<close> with the buffer and the flag of the render of the click. In the
  first run below the translation \<open>Gracias por tu tiempo amigo\<close> arrives while the
  handler is suspended: when it resumes, the recording is on, nothing is speaking, the
  unspoken portion is the whole buffer and has no sentence mark, and the handler speaks
  \<open>Gracias por tu tiempo\<close> and sets the watermark to 21 while the buffer has length 27.
  In the second run the buffer was \<open>Muchas gracias\<close> at the click and \<open>Gracias.\<close>
  is spoken while the handler is suspended: the handler then speaks \<open>racias\<close>, the
  text of the click cut at the watermark of another text, while the first utterance
  is in flight.
\<close>

theorem stop_handler_stale_closure:
  "(st = run tr init_state \<and> n < length (suspendedToggles st) \<and>
    suspendedToggles st ! n = capture st \<and> isRecording st \<and> \<not> isSpeaking st \<and>
    trim (substring (translatedText st) (watermark st)) \<noteq> [] \<longrightarrow>
      handle e (ToggleResumes n startOk) st =
        (speak e (trim (substring (translatedText st) (watermark st))) (targetLanguage st)
           (st\<lparr>suspendedToggles := take n (suspendedToggles st) @ drop (Suc n) (suspendedToggles st),
               isRecording := False, pendingTimeouts := []\<rparr>))
          \<lparr>lastSpokenTranslatedTextRef := translatedText st\<rparr>) \<and>
   isRecording (run trace_late_translation init_state) \<and>
   \<not> isSpeaking (run trace_late_translation init_state) \<and>
   map fst (pendingTimeouts (run trace_late_translation init_state)) = [2] \<and>
   trim (substring (translatedText (run trace_late_translation init_state))
           (watermark (run trace_late_translation init_state))) =
     js ''Gracias por tu tiempo amigo'' \<and>
   \<not> endsWithPunctuation (js ''Gracias por tu tiempo amigo'') \<and>
   ttsStarted (handle all_keys (ToggleResumes 0 True) (run trace_late_translation init_state)) =
     [(js ''Gracias por tu tiempo'', js ''es'')] \<and>
   watermark (handle all_keys (ToggleResumes 0 True) (run trace_late_translation init_state)) = 21 \<and>
   length (translatedText
     (handle all_keys (ToggleResumes 0 True) (run trace_late_translation init_state))) = 27 \<and>
   hc_translatedText (suspendedToggles (run trace_spoken_in_await init_state) ! 0) =
     js ''Muchas gracias'' \<and>
   ttsStarted (run trace_spoken_in_await init_state) = [(js ''Gracias.'', js ''es'')] \<and>
   ttsStarted (handle all_keys (ToggleResumes 0 True) (run trace_spoken_in_await init_state)) =
     [(js ''Gracias.'', js ''es''), (js ''racias'', js ''es'')]"
proof -
  have a: "handle e (ToggleResumes n startOk) st =
        (speak e (trim (substring (translatedText st) (watermark st))) (targetLanguage st)
           (st\<lparr>suspendedToggles := take n (suspendedToggles st) @ drop (Suc n) (suspendedToggles st),
               isRecording := False, pendingTimeouts := []\<rparr>))
          \<lparr>lastSpokenTranslatedTextRef := translatedText st\<rparr>"
    if h: "st = run tr init_state" "n < length (suspendedToggles st)"
      "suspendedToggles st ! n = capture st" "isRecording st" "\<not> isSpeaking st"
      "trim (substring (translatedText st) (watermark st)) \<noteq> []"
  proof -
    let ?s = "st\<lparr>suspendedToggles := take n (suspendedToggles st) @ drop (Suc n) (suspendedToggles st)\<rparr>"
    have "state_inv st" using h(1) reachable_inv by simp
    then have o: "timers_owned ?s" by (simp add: state_inv_def timers_owned_def)
    have c: "capture st = capture ?s" by (simp add: capture_def)
    from resume_stop_fresh[OF o, of e startOk] h(4-6)
    have "handleRecordingToggle_resume e startOk (capture ?s) ?s =
        (speak e (trim (substring (translatedText st) (watermark st))) (targetLanguage st)
           (?s\<lparr>isRecording := False, pendingTimeouts := []\<rparr>))
          \<lparr>lastSpokenTranslatedTextRef := translatedText st\<rparr>"
      by (simp add: watermark_def)
    with h(2,3) c show ?thesis by simp
  qed
  have b: "isRecording state_late_translation \<and>
      \<not> isSpeaking state_late_translation \<and>
      map fst (pendingTimeouts state_late_translation) = [2] \<and>
      trim (substring (translatedText state_late_translation)
              (watermark state_late_translation)) = js ''Gracias por tu tiempo amigo'' \<and>
      \<not> endsWithPunctuation (js ''Gracias por tu tiempo amigo'') \<and>
      ttsStarted (handle all_keys (ToggleResumes 0 True) state_late_translation) =
        [(js ''Gracias por tu tiempo'', js ''es'')] \<and>
      watermark (handle all_keys (ToggleResumes 0 True) state_late_translation) = 21 \<and>
      length (translatedText (handle all_keys (ToggleResumes 0 True) state_late_translation)) = 27"
    by code_simp
  have c: "hc_translatedText (suspendedToggles state_spoken_in_await ! 0) = js ''Muchas gracias'' \<and>
      ttsStarted state_spoken_in_await = [(js ''Gracias.'', js ''es'')] \<and>
      ttsStarted (handle all_keys (ToggleResumes 0 True) state_spoken_in_await) =
        [(js ''Gracias.'', js ''es''), (js ''racias'', js ''es'')]"
    by code_simp
  from a b c show ?thesis
    unfolding run_late_translation run_spoken_in_await by blast
qed

text \<open>
  The scenario of the specification: the buffer holds \<open>Gracias por tu tiempo\<close>, the
  debounce timer is pending, the button is clicked and the handler resumes before
  anything else is handled.
\<close>

theorem stop_handler_stale_closure_witness:
  "pendingTimeouts (handle all_keys (ToggleResumes 0 True)
     (run (trace_gracias @ [(all_keys, ToggleClick)]) init_state)) = [] \<and>
   ttsStarted (handle all_keys (ToggleResumes 0 True)
     (run (trace_gracias @ [(all_keys, ToggleClick)]) init_state)) =
     [(js ''Gracias por tu tiempo'', js ''es'')] \<and>
   ttsRequests (handle all_keys (ToggleResumes 0 True)
     (run (trace_gracias @ [(all_keys, ToggleClick)]) init_state)) =
     [(js ''Gracias por tu tiempo'', js ''es'')] \<and>
   \<not> isRecording (handle all_keys (ToggleResumes 0 True)
     (run (trace_gracias @ [(all_keys, ToggleClick)]) init_state)) \<and>
   watermark (handle all_keys (ToggleResumes 0 True)
     (run (trace_gracias @ [(all_keys, ToggleClick)]) init_state)) = 21 \<and>
   length (translatedText (handle all_keys (ToggleResumes 0 True)
     (run (trace_gracias @ [(all_keys, ToggleClick)]) init_state))) = 21"
proof -
  let ?st = "run (trace_gracias @ [(all_keys, ToggleClick)]) init_state"
  have s: "?st = state_gracias\<lparr>suspendedToggles := [capture state_gracias]\<rparr>"
    by (rule run_stop_click)
  have n: "0 < length (suspendedToggles ?st)" "suspendedToggles ?st ! 0 = capture ?st"
    "isRecording ?st" "\<not> isSpeaking ?st"
    unfolding s by (simp_all add: capture_def state_gracias_def)
  have p: "trim (substring (translatedText ?st) (watermark ?st)) = js ''Gracias por tu tiempo''"
    unfolding s using portion_gracias by (simp add: watermark_def)
  have q: "js ''Gracias por tu tiempo'' \<noteq> []" "trim (js ''Gracias por tu tiempo'') \<noteq> []"
    "\<not> falsy (elevenlabs_api_key all_keys)"
    "length (js ''Gracias por tu tiempo'') = 21"
    by code_simp+
  have f: "ttsStarted ?st = []" "ttsRequests ?st = []" "targetLanguage ?st = js ''es''"
    "translatedText ?st = js ''Gracias por tu tiempo''"
    unfolding s by (simp_all add: state_gracias_def)
  from stop_handler_stale_closure[of ?st "trace_gracias @ [(all_keys, ToggleClick)]" 0 all_keys True]
    n p q
  have "handle all_keys (ToggleResumes 0 True) ?st =
      (speak all_keys (js ''Gracias por tu tiempo'') (js ''es'')
         (?st\<lparr>suspendedToggles := take 0 (suspendedToggles ?st) @ drop (Suc 0) (suspendedToggles ?st),
              isRecording := False, pendingTimeouts := []\<rparr>))
        \<lparr>lastSpokenTranslatedTextRef := js ''Gracias por tu tiempo''\<rparr>"
    by (simp add: f)
  then show ?thesis
    using q f by (simp add: speak_started speak_requests watermark_def)
qed

end
